theory Spec2Isabelle
  imports Main "HOL-Library.AList"
begin

section \<open>Python values, exceptions and dictionaries\<close>

text \<open>
  The supervisor of \<^verbatim>\<open>qless/workers/forking.py\<close> is Python 2 code. Keyword options are a
  dictionary from names to values of several Python types, so the values are a datatype.
  \<open>PyClass\<close> is a class object (named by its qualified name), \<open>PyJobs\<close> a list of job
  identifiers.
\<close>

datatype pyval = PyNone | PyInt int | PyStr string | PyClass string | PyJobs "string list"

text \<open>Python's truth value of an object, as \<^verbatim>\<open>or\<close> tests it.\<close>

fun truthy :: "pyval \<Rightarrow> bool" where
  "truthy PyNone = False"
| "truthy (PyInt n) = (n \<noteq> 0)"
| "truthy (PyStr s) = (s \<noteq> [])"
| "truthy (PyClass c) = True"
| "truthy (PyJobs js) = (js \<noteq> [])"

definition py_or :: "pyval \<Rightarrow> pyval \<Rightarrow> pyval" where
  "py_or a b = (if truthy a then a else b)"

datatype errno = EINTR | ECHILD | ESRCH | EAGAIN | ENOMEM | EPERM

datatype signal = SIGHUP | SIGINT | SIGQUIT | SIGKILL | SIGTERM | SIGUSR1 | SIGUSR2

datatype exn =
    OSError errno
  | KeyError int
  | UnboundLocalError string
  | SystemExit int
  | TypeError
  | IndexError

text \<open>
  A dictionary is an association list with distinct keys; \<open>AList.update\<close> is item
  assignment, \<open>AList.delete\<close> removes a key, \<open>AList.merge\<close> is \<^verbatim>\<open>dict.update\<close>.
\<close>

type_synonym ('k, 'v) dict = "('k \<times> 'v) list"

definition keys :: "('k, 'v) dict \<Rightarrow> 'k list" where
  "keys d = map fst d"

text \<open>\<^verbatim>\<open>d.pop(k, default)\<close>: the value (or the default) and the dictionary without the key.\<close>

definition pop_default :: "'k \<Rightarrow> 'v \<Rightarrow> ('k, 'v) dict \<Rightarrow> 'v \<times> ('k, 'v) dict" where
  "pop_default k dflt d =
     ((case map_of d k of None \<Rightarrow> dflt | Some v \<Rightarrow> v), AList.delete k d)"

text \<open>\<^verbatim>\<open>d.pop(k)\<close>: \<open>None\<close> stands for the \<^verbatim>\<open>KeyError\<close> that a missing key raises.\<close>

definition pop :: "'k \<Rightarrow> ('k, 'v) dict \<Rightarrow> ('v \<times> ('k, 'v) dict) option" where
  "pop k d = (case map_of d k of None \<Rightarrow> None | Some v \<Rightarrow> Some (v, AList.delete k d))"

section \<open>The supervisor's state\<close>

text \<open>
  The attributes that the base class \<^verbatim>\<open>Worker\<close> leaves behind and that \<^verbatim>\<open>ForkingWorker\<close>
  reads (\<^verbatim>\<open>queues\<close>, \<^verbatim>\<open>client\<close>, \<^verbatim>\<open>kwargs\<close>, \<^verbatim>\<open>resume\<close>) are the fields of \<open>worker\<close>.
\<close>

record worker =
  queues :: "string list"
  client :: string
  kwargs :: "(string, pyval) dict"
  resume :: "string list"


record forking_worker = worker +
  klass :: pyval
  count :: pyval
  sandboxes :: "(int, string) dict"
  shutdown :: bool

text \<open>
  \<^verbatim>\<open>ForkingWorker.__init__\<close>, after the base class has run. \<open>num_cpus\<close> is
  \<^verbatim>\<open>psutil.NUM_CPUS\<close>.
\<close>

definition init :: "int \<Rightarrow> worker \<Rightarrow> forking_worker" where
  "init num_cpus w =
     (let (k, kw1) = pop_default ''klass'' (PyClass ''SerialWorker'') (kwargs w);
          (n, kw2) = pop_default ''workers'' (PyInt 0) kw1
      in \<lparr> queues = queues w, client = client w, kwargs = kw2, resume = resume w,
           klass = k, count = py_or n (PyInt num_cpus),
           sandboxes = [], shutdown = False \<rparr>)"

section \<open>Constructing a worker unit\<close>

text \<open>What the class of the worker unit is called with: \<^verbatim>\<open>klass(queues, client, **copy)\<close>.\<close>

record worker_ctor =
  ctor_klass :: pyval
  ctor_queues :: "string list"
  ctor_client :: string
  ctor_kwargs :: "(string, pyval) dict"

text \<open>
  \<^verbatim>\<open>ForkingWorker.spawn\<close>. \<open>import_class\<close> is \<^verbatim>\<open>util.import_class\<close>, which is not part of
  the sources at hand and is a parameter. A class given by name is resolved and stored.
\<close>

definition spawn ::
  "(string \<Rightarrow> pyval) \<Rightarrow> forking_worker \<Rightarrow> (string, pyval) dict \<Rightarrow> worker_ctor \<times> forking_worker" where
  "spawn import_class st kw =
     (let copy = AList.merge (kwargs st) kw;
          st' = (case klass st of PyStr name \<Rightarrow> st\<lparr>klass := import_class name\<rparr> | _ \<Rightarrow> st)
      in (\<lparr> ctor_klass = klass st', ctor_queues = queues st', ctor_client = client st',
            ctor_kwargs = copy \<rparr>, st'))"

section \<open>Sandbox paths\<close>

text \<open>\<^verbatim>\<open>posixpath.join\<close> of Python 2.\<close>

definition join_step :: "string \<Rightarrow> string \<Rightarrow> string" where
  "join_step path b =
     (if b \<noteq> [] \<and> hd b = CHR ''/'' then b
      else if path = [] \<or> last path = CHR ''/'' then path @ b
      else path @ ''/'' @ b)"

definition path_join :: "string \<Rightarrow> string list \<Rightarrow> string" where
  "path_join a ps = foldl join_step a ps"

text \<open>\<^verbatim>\<open>'%s' % index\<close> for an index of \<^verbatim>\<open>range\<close>: its decimal digits.\<close>

definition digit :: "nat \<Rightarrow> char" where
  "digit d = ''0123456789'' ! d"

fun str_nat :: "nat \<Rightarrow> string" where
  "str_nat n = (if n < 10 then [digit n] else str_nat (n div 10) @ [digit (n mod 10)])"

declare str_nat.simps [simp del]

text \<open>The number that a string of decimal digits denotes, by the codes of its characters.\<close>

definition decimal_value :: "string \<Rightarrow> nat" where
  "decimal_value s = foldl (\<lambda>a c. 10 * a + (of_char c - 48)) 0 s"

text \<open>The sandbox of a slot, lines 63-64 of \<^verbatim>\<open>run\<close>; \<open>cwd\<close> is \<^verbatim>\<open>os.getcwd()\<close>.\<close>

definition sandbox_path :: "string \<Rightarrow> nat \<Rightarrow> string" where
  "sandbox_path cwd index = path_join cwd [''qless-py-workers'', ''sandbox-'' @ str_nat index]"

section \<open>Effects and the operating system\<close>

text \<open>The messages that the supervisor logs, by the format string of each call.\<close>

datatype logmsg =
    Stopping int
  | WaitingFor int
  | StoppedWith int int
  | ErrorWaitingFor int
  | SpawnedWorker int
  | DiedWith int int int
  | SpawnedReplacement int

text \<open>
  What the supervisor does to the outside, in order: a signal delivered by \<^verbatim>\<open>os.kill\<close>,
  a child reaped by \<^verbatim>\<open>os.wait\<close> or \<^verbatim>\<open>os.waitpid\<close>, a child created by \<^verbatim>\<open>os.fork\<close>, a log
  record, and the calls into code outside this module: entering and leaving the
  \<^verbatim>\<open>with Worker.sandbox(sandbox)\<close> block, and \<^verbatim>\<open>run()\<close> of a worker unit that has been
  constructed.
\<close>

datatype effect =
    Signalled int signal
  | Reaped int int
  | Forked int
  | Warn logmsg
  | Info logmsg
  | Exception logmsg
  | ReloadLogger
  | RegisterSignals "signal list"
  | EnterSandbox string
  | Chdir string
  | RunUnit worker_ctor
  | LeaveSandbox string

text \<open>
  The answers of the operating system to \<^verbatim>\<open>os.kill(pid, sig)\<close> (\<open>None\<close>: delivered,
  otherwise the \<^verbatim>\<open>errno\<close> of the \<^verbatim>\<open>OSError\<close>) and to \<^verbatim>\<open>os.waitpid(pid, 0)\<close> (the pair
  it returns, or the exception it raises).
\<close>

record os =
  os_kill :: "int \<Rightarrow> signal \<Rightarrow> errno option"
  os_waitpid :: "int \<Rightarrow> exn + int \<times> int"

text \<open>
  What \<^verbatim>\<open>run()\<close> of a worker unit does: it never returns, it returns, or it raises. The
  classes of the worker units are not part of the sources at hand, so this is a parameter,
  \<open>unit_run\<close>, of everything that forks.
\<close>

datatype unit_end = Forever | Returns | Raises exn

text \<open>
  How a piece of code ends in the process that the model follows through every fork: it
  completes, it raises, the process is a forked child that stays in \<^verbatim>\<open>run()\<close> of its worker
  unit, or it is blocked in \<^verbatim>\<open>os.wait\<close> with no further event to report.
\<close>

datatype outcome =
    Done forking_worker
  | Raised exn forking_worker
  | Child worker_ctor
  | Blocked forking_worker

section \<open>Signal handler\<close>

text \<open>
  The loop \<^verbatim>\<open>for cpid in self.sandboxes.keys(): os.kill(cpid, sig)\<close>, which \<^verbatim>\<open>handler\<close> and
  \<^verbatim>\<open>stop\<close> share; \<open>pre\<close> is what \<^verbatim>\<open>stop\<close> logs before each call. An \<^verbatim>\<open>OSError\<close> of
  \<^verbatim>\<open>os.kill\<close> is not caught and ends the loop.
\<close>

fun kill_all ::
  "os \<Rightarrow> signal \<Rightarrow> (int \<Rightarrow> effect list) \<Rightarrow> int list \<Rightarrow> exn option \<times> effect list" where
  "kill_all os sig pre [] = (None, [])"
| "kill_all os sig pre (cpid # rest) =
     (case os_kill os cpid sig of
        Some e \<Rightarrow> (Some (OSError e), pre cpid)
      | None \<Rightarrow>
          (case kill_all os sig pre rest of
             (r, tr) \<Rightarrow> (r, pre cpid @ Signalled cpid sig # tr)))"

text \<open>\<^verbatim>\<open>ForkingWorker.handler\<close>; \<^verbatim>\<open>exit(0)\<close> raises \<^verbatim>\<open>SystemExit\<close>.\<close>

definition handler ::
  "os \<Rightarrow> forking_worker \<Rightarrow> signal \<Rightarrow> (exn + unit) \<times> forking_worker \<times> effect list" where
  "handler os st signum =
     (if signum \<in> set [SIGTERM, SIGINT, SIGQUIT, SIGHUP] then
        (case kill_all os signum (\<lambda>_. []) (keys (sandboxes st)) of
           (Some e, tr) \<Rightarrow> (Inl e, st, tr)
         | (None, tr) \<Rightarrow>
             if signum = SIGHUP then (Inr (), st, tr @ [ReloadLogger])
             else (Inl (SystemExit 0), st, tr))
      else (Inr (), st, []))"

section \<open>Stopping the children\<close>

text \<open>
  One round of the second loop of \<^verbatim>\<open>stop\<close>. \<open>pid\<close> is the local variable \<^verbatim>\<open>pid\<close>, which
  only a \<^verbatim>\<open>waitpid\<close> that returns assigns (\<open>None\<close>: not yet bound). The \<^verbatim>\<open>try\<close> leaves an
  exception pending unless it is an \<^verbatim>\<open>OSError\<close>, which is logged; the \<^verbatim>\<open>finally\<close> clause
  then runs \<^verbatim>\<open>self.sandboxes.pop(pid, None)\<close>, and reading the unbound variable raises.
\<close>

definition reap_one ::
  "os \<Rightarrow> int \<Rightarrow> int option \<Rightarrow> (int, string) dict
     \<Rightarrow> exn option \<times> int option \<times> (int, string) dict \<times> effect list" where
  "reap_one os cpid pid sbs =
     (let (pending, pid', tr) =
        (case os_waitpid os cpid of
           Inr (p, status) \<Rightarrow>
             (None, Some p,
              [Info (WaitingFor cpid), Reaped p status, Warn (StoppedWith p (status div 256))])
         | Inl (OSError e) \<Rightarrow>
             (None, pid, [Info (WaitingFor cpid), Exception (ErrorWaitingFor cpid)])
         | Inl e \<Rightarrow> (Some e, pid, [Info (WaitingFor cpid)]))
      in (case pid' of
            None \<Rightarrow> (Some (UnboundLocalError ''pid''), pid', sbs, tr)
          | Some p \<Rightarrow> (pending, pid', AList.delete p sbs, tr)))"

text \<open>The second loop of \<^verbatim>\<open>stop\<close>, over the list of keys taken before it starts.\<close>

fun reap_all ::
  "os \<Rightarrow> int list \<Rightarrow> int option \<Rightarrow> (int, string) dict
     \<Rightarrow> exn option \<times> (int, string) dict \<times> effect list" where
  "reap_all os [] pid sbs = (None, sbs, [])"
| "reap_all os (cpid # rest) pid sbs =
     (case reap_one os cpid pid sbs of
        (Some e, pid', sbs', tr) \<Rightarrow> (Some e, sbs', tr)
      | (None, pid', sbs', tr) \<Rightarrow>
          (case reap_all os rest pid' sbs' of
             (r, sbs'', tr') \<Rightarrow> (r, sbs'', tr @ tr')))"

text \<open>\<^verbatim>\<open>ForkingWorker.stop\<close>.\<close>

definition stop ::
  "os \<Rightarrow> signal \<Rightarrow> forking_worker \<Rightarrow> (exn + unit) \<times> forking_worker \<times> effect list" where
  "stop os sig st =
     (case kill_all os sig (\<lambda>cpid. [Warn (Stopping cpid)]) (keys (sandboxes st)) of
        (Some e, tr) \<Rightarrow> (Inl e, st, tr)
      | (None, tr) \<Rightarrow>
          (case reap_all os (keys (sandboxes st)) None (sandboxes st) of
             (r, sbs, tr') \<Rightarrow>
               ((case r of Some e \<Rightarrow> Inl e | None \<Rightarrow> Inr ()),
                st\<lparr>sandboxes := sbs\<rparr>, tr @ tr')))"

section \<open>Running the supervisor\<close>

text \<open>
  The body of the \<^verbatim>\<open>with Worker.sandbox(sandbox)\<close> block of a forked child, after the
  arguments of \<^verbatim>\<open>spawn\<close> have been evaluated: \<^verbatim>\<open>os.chdir(sandbox)\<close>,
  \<^verbatim>\<open>self.spawn(...).run()\<close> and \<^verbatim>\<open>exit(0)\<close>. The result is the exception with which the block
  is left (\<open>None\<close>: the unit never returns), the worker unit and the state of the child.
  When \<^verbatim>\<open>run()\<close> returns, \<^verbatim>\<open>exit(0)\<close> raises \<^verbatim>\<open>SystemExit\<close>.
\<close>

definition child_block ::
  "(string \<Rightarrow> pyval) \<Rightarrow> (worker_ctor \<Rightarrow> unit_end) \<Rightarrow> forking_worker \<Rightarrow> string
     \<Rightarrow> (string, pyval) dict \<Rightarrow> exn option \<times> worker_ctor \<times> forking_worker \<times> effect list" where
  "child_block imp unit_run st sandbox kw =
     (let (ctor, st') = spawn imp st kw;
          tr = [EnterSandbox sandbox, Chdir sandbox, RunUnit ctor]
      in case unit_run ctor of
           Forever \<Rightarrow> (None, ctor, st', tr)
         | Returns \<Rightarrow> (Some (SystemExit 0), ctor, st', tr @ [LeaveSandbox sandbox])
         | Raises e \<Rightarrow> (Some e, ctor, st', tr @ [LeaveSandbox sandbox]))"

text \<open>
  The first loop of \<^verbatim>\<open>run\<close>, one slot per index. \<open>fork\<close> gives what \<^verbatim>\<open>os.fork()\<close> does for
  each index: it raises, or returns the child's pid in the parent and 0 in the child.
  The child enters the sandbox and runs the worker unit constructed for
  \<^verbatim>\<open>resume[index]\<close>; this loop is not inside a \<^verbatim>\<open>try\<close>, so whatever leaves the block
  leaves \<^verbatim>\<open>run\<close>.
\<close>

fun launch ::
  "(string \<Rightarrow> pyval) \<Rightarrow> (worker_ctor \<Rightarrow> unit_end) \<Rightarrow> string \<Rightarrow> string list list
     \<Rightarrow> (nat \<Rightarrow> errno + int) \<Rightarrow> nat list \<Rightarrow> forking_worker \<Rightarrow> outcome \<times> effect list" where
  "launch imp unit_run cwd res fork [] st = (Done st, [])"
| "launch imp unit_run cwd res fork (index # rest) st =
     (let sandbox = sandbox_path cwd index in
      case fork index of
        Inl e \<Rightarrow> (Raised (OSError e) st, [])
      | Inr cpid \<Rightarrow>
          if cpid \<noteq> 0 then
            (case launch imp unit_run cwd res fork rest
                    (st\<lparr>sandboxes := AList.update cpid sandbox (sandboxes st)\<rparr>) of
               (r, tr) \<Rightarrow> (r, Forked cpid # Info (SpawnedWorker cpid) # tr))
          else if index < length res then
            (case child_block imp unit_run st sandbox
                    [(''resume'', PyJobs (res ! index)), (''sandbox'', PyStr sandbox)] of
               (None, ctor, st', tr) \<Rightarrow> (Child ctor, tr)
             | (Some e, ctor, st', tr) \<Rightarrow> (Raised e st', tr))
          else (Raised IndexError st,
                [EnterSandbox sandbox, Chdir sandbox, LeaveSandbox sandbox]))"

text \<open>The \<^verbatim>\<open>except OSError, e\<close> clause of the wait loop: only \<^verbatim>\<open>EINTR\<close> goes on.\<close>

definition on_exception :: "exn \<Rightarrow> forking_worker \<Rightarrow> outcome" where
  "on_exception e st = (if e = OSError EINTR then Done st else Raised e st)"

text \<open>
  One round of the wait loop, lines 78-96. The event holds what \<^verbatim>\<open>os.wait()\<close> does (it
  raises, or returns a pid and a status) and what \<^verbatim>\<open>os.fork()\<close> does if the round
  reaches it. \<open>Done\<close> means that the loop goes on. The block of the replacement child is
  inside the \<^verbatim>\<open>try\<close>: what leaves it, the \<^verbatim>\<open>SystemExit\<close> of \<^verbatim>\<open>exit(0)\<close> included, meets the
  \<^verbatim>\<open>except OSError\<close> clause in the child, which holds a copy of the record.
\<close>

type_synonym wait_event = "(exn + int \<times> int) \<times> (errno + int)"

definition iteration ::
  "(string \<Rightarrow> pyval) \<Rightarrow> (worker_ctor \<Rightarrow> unit_end) \<Rightarrow> forking_worker \<Rightarrow> wait_event
     \<Rightarrow> outcome \<times> effect list" where
  "iteration imp unit_run st ev =
     (case fst ev of
        Inl e \<Rightarrow> (on_exception e st, [])
      | Inr (pid, status) \<Rightarrow>
          (let tr = [Reaped pid status, Warn (DiedWith pid (status div 256) (status mod 256))] in
           case pop pid (sandboxes st) of
             None \<Rightarrow> (on_exception (KeyError pid) st, tr)
           | Some (sandbox, sbs) \<Rightarrow>
               (let st1 = st\<lparr>sandboxes := sbs\<rparr> in
                case snd ev of
                  Inl e \<Rightarrow> (on_exception (OSError e) st1, tr)
                | Inr cpid \<Rightarrow>
                    if cpid \<noteq> 0 then
                      (Done (st1\<lparr>sandboxes := AList.update cpid sandbox sbs\<rparr>),
                       tr @ [Forked cpid, Info (SpawnedReplacement cpid)])
                    else
                      (case child_block imp unit_run st1 sandbox
                              [(''sandbox'', PyStr sandbox)] of
                         (None, ctor, st', tr') \<Rightarrow> (Child ctor, tr @ tr')
                       | (Some e, ctor, st', tr') \<Rightarrow> (on_exception e st', tr @ tr')))))"

text \<open>
  \<^verbatim>\<open>while not self.shutdown\<close>, driven by the events that the operating system reports.
  With no event left the supervisor is blocked in \<^verbatim>\<open>os.wait()\<close>.
\<close>

fun wait_loop ::
  "(string \<Rightarrow> pyval) \<Rightarrow> (worker_ctor \<Rightarrow> unit_end) \<Rightarrow> forking_worker \<Rightarrow> wait_event list
     \<Rightarrow> outcome \<times> effect list" where
  "wait_loop imp unit_run st [] = (if shutdown st then (Done st, []) else (Blocked st, []))"
| "wait_loop imp unit_run st (ev # evs) =
     (if shutdown st then (Done st, [])
      else
        (case iteration imp unit_run st ev of
           (Done st', tr) \<Rightarrow>
             (case wait_loop imp unit_run st' evs of (r, tr') \<Rightarrow> (r, tr @ tr'))
         | (r, tr) \<Rightarrow> (r, tr)))"

text \<open>
  The \<^verbatim>\<open>try ... finally: self.stop(signal.SIGKILL)\<close> around the wait loop: when the loop
  ends or raises, \<^verbatim>\<open>stop\<close> runs, and an exception of \<^verbatim>\<open>stop\<close> replaces a pending one. This
  holds in a replacement child too: when its block is left, the loop has raised in the
  child, and \<^verbatim>\<open>stop\<close> runs there on the child's copy of the record. Only a child whose
  unit never returns does not reach the clause.
\<close>

definition finally_stop :: "os \<Rightarrow> outcome \<times> effect list \<Rightarrow> outcome \<times> effect list" where
  "finally_stop os r =
     (case r of
        (Done st, tr) \<Rightarrow>
          (case stop os SIGKILL st of
             (Inr u, st', tr') \<Rightarrow> (Done st', tr @ tr')
           | (Inl e', st', tr') \<Rightarrow> (Raised e' st', tr @ tr'))
      | (Raised e st, tr) \<Rightarrow>
          (case stop os SIGKILL st of
             (Inr u, st', tr') \<Rightarrow> (Raised e st', tr @ tr')
           | (Inl e', st', tr') \<Rightarrow> (Raised e' st', tr @ tr'))
      | (r', tr) \<Rightarrow> (r', tr))"

text \<open>
  \<^verbatim>\<open>ForkingWorker.run\<close>. \<open>divide_jobs\<close> is \<^verbatim>\<open>Worker.divide\<close>, which is not part of the sources
  at hand and is a parameter; a count that is not an integer makes \<^verbatim>\<open>range\<close> raise.
\<close>

definition run ::
  "(string \<Rightarrow> pyval) \<Rightarrow> (worker_ctor \<Rightarrow> unit_end) \<Rightarrow> (string list \<Rightarrow> int \<Rightarrow> string list list)
     \<Rightarrow> string \<Rightarrow> (nat \<Rightarrow> errno + int) \<Rightarrow> os \<Rightarrow> forking_worker \<Rightarrow> wait_event list
     \<Rightarrow> outcome \<times> effect list" where
  "run imp unit_run divide_jobs cwd fork os st evs =
     (let tr0 = [RegisterSignals [SIGTERM, SIGINT, SIGQUIT, SIGHUP]] in
      case count st of
        PyInt n \<Rightarrow>
          (case launch imp unit_run cwd (divide_jobs (resume st) n) fork [0..<nat n] st of
             (Done st1, tr1) \<Rightarrow>
               (case finally_stop os (wait_loop imp unit_run st1 evs) of
                  (r, tr2) \<Rightarrow> (r, tr0 @ tr1 @ tr2))
           | (r, tr1) \<Rightarrow> (r, tr0 @ tr1))
      | _ \<Rightarrow> (Raised TypeError st, tr0))"

section \<open>Observations and example inputs\<close>

text \<open>The supervisor's state at the end of a piece of code, when the process is the parent.\<close>

fun state_of :: "outcome \<Rightarrow> forking_worker option" where
  "state_of (Done st) = Some st"
| "state_of (Raised e st) = Some st"
| "state_of (Child c) = None"
| "state_of (Blocked st) = Some st"

text \<open>The pids of the children created in a trace.\<close>

definition forked :: "effect list \<Rightarrow> int list" where
  "forked tr = concat (map (\<lambda>x. case x of Forked c \<Rightarrow> [c] | _ \<Rightarrow> []) tr)"

text \<open>The worker units whose \<^verbatim>\<open>run()\<close> is called in a trace.\<close>

definition constructed :: "effect list \<Rightarrow> worker_ctor list" where
  "constructed tr = concat (map (\<lambda>x. case x of RunUnit c \<Rightarrow> [c] | _ \<Rightarrow> []) tr)"

text \<open>Worker units that never return, and that return at once.\<close>

definition forever :: "worker_ctor \<Rightarrow> unit_end" where
  "forever c = Forever"

definition returns :: "worker_ctor \<Rightarrow> unit_end" where
  "returns c = Returns"

text \<open>Keyword options with and without a worker count.\<close>

definition w0 :: worker where
  "w0 = \<lparr> queues = [''mail''], client = ''redis'',
          kwargs = [(''klass'', PyStr ''qless.workers.greenlet.GeventWorker''),
                    (''workers'', PyInt 3), (''interval'', PyInt 60)],
          resume = [] \<rparr>"

definition w1 :: worker where
  "w1 = \<lparr> queues = [''mail''], client = ''redis'',
          kwargs = [(''interval'', PyInt 60)], resume = [] \<rparr>"

text \<open>A supervisor of two slots before it forks, and with both children tracked.\<close>

definition sup0 :: forking_worker where
  "sup0 = \<lparr> queues = [''mail''], client = ''redis'', kwargs = [(''interval'', PyInt 60)],
            resume = [], klass = PyClass ''SerialWorker'', count = PyInt 2,
            sandboxes = [], shutdown = False \<rparr>"

definition sup2 :: forking_worker where
  "sup2 = \<lparr> queues = [''mail''], client = ''redis'', kwargs = [(''interval'', PyInt 60)],
            resume = [], klass = PyClass ''SerialWorker'', count = PyInt 2,
            sandboxes = [(101, ''/srv/qless-py-workers/sandbox-0''),
                         (102, ''/srv/qless-py-workers/sandbox-1'')],
            shutdown = False \<rparr>"

text \<open>
  Operating systems: every call succeeds and a child ends by signal 9; every \<^verbatim>\<open>waitpid\<close>
  fails with \<^verbatim>\<open>ECHILD\<close>; the \<^verbatim>\<open>waitpid\<close> for child 102 is interrupted by a signal whose
  handler returns.
\<close>

definition os_ok :: os where
  "os_ok = \<lparr> os_kill = (\<lambda>pid sig. None), os_waitpid = (\<lambda>pid. Inr (pid, 9)) \<rparr>"

definition os_no_child :: os where
  "os_no_child = \<lparr> os_kill = (\<lambda>pid sig. None), os_waitpid = (\<lambda>pid. Inl (OSError ECHILD)) \<rparr>"

definition os_interrupted :: os where
  "os_interrupted =
     \<lparr> os_kill = (\<lambda>pid sig. None),
       os_waitpid = (\<lambda>pid. if pid = 102 then Inl (OSError EINTR) else Inr (pid, 9)) \<rparr>"



definition fork_child_at :: "nat \<Rightarrow> nat \<Rightarrow> errno + int" where
  "fork_child_at k j = (if j = k then Inr 0 else Inr (101 + int j))"

text \<open>Forks that succeed in the parent, and a partition of no jobs.\<close>

definition fork_ok :: "nat \<Rightarrow> errno + int" where
  "fork_ok i = Inr (101 + int i)"

definition no_jobs :: "string list \<Rightarrow> int \<Rightarrow> string list list" where
  "no_jobs js n = replicate (nat n) []"

section \<open>Dictionaries and the shared loops\<close>

lemma keys_delete: "set (keys (AList.delete k d)) = set (keys d) - {k}"
  by (simp add: keys_def AList.delete_keys)

lemma keys_update: "set (keys (AList.update k v d)) = insert k (set (keys d))"
  using AList.dom_update [of k v d] by (simp add: keys_def)

lemma length_update_new:
  "k \<notin> fst ` set d \<Longrightarrow> length (AList.update k v d) = Suc (length d)"
  by (induction d) auto

lemma length_update_old:
  "k \<in> fst ` set d \<Longrightarrow> length (AList.update k v d) = length d"
  by (induction d) auto

lemma length_update_le: "length (AList.update k v d) \<le> Suc (length d)"
  by (induction d) auto

lemma length_delete_less:
  "map_of d k = Some v \<Longrightarrow> length (AList.delete k d) < length d"
proof (induction d)
  case Nil
  then show ?case by simp
next
  case (Cons a d)
  show ?case
  proof (cases "fst a = k")
    case True
    have "length (AList.delete k d) \<le> length d" by (rule AList.length_delete_le)
    with True show ?thesis by (cases a) simp
  next
    case False
    with Cons show ?thesis by (cases a) auto
  qed
qed

lemma length_delete_distinct:
  "distinct (map fst d) \<Longrightarrow> map_of d k = Some v \<Longrightarrow> Suc (length (AList.delete k d)) = length d"
proof (induction d)
  case Nil
  then show ?case by simp
next
  case (Cons a d)
  show ?case
  proof (cases "fst a = k")
    case True
    with Cons.prems have "k \<notin> fst ` set d" by auto
    with True show ?thesis by (cases a) (simp add: AList.delete_id)
  next
    case False
    with Cons show ?thesis by (cases a) auto
  qed
qed

lemma count_list_delete:
  "distinct (map fst d) \<Longrightarrow> map_of d k = Some v \<Longrightarrow>
     count_list (map snd d) p =
       count_list (map snd (AList.delete k d)) p + (if v = p then 1 else 0)"
proof (induction d)
  case Nil
  then show ?case by simp
next
  case (Cons a d)
  show ?case
  proof (cases "fst a = k")
    case True
    with Cons.prems have "k \<notin> fst ` set d" by auto
    with True Cons.prems(2) show ?thesis by (cases a) (auto simp: AList.delete_id)
  next
    case False
    with Cons show ?thesis by (cases a) auto
  qed
qed

lemma update_fresh: "k \<notin> fst ` set d \<Longrightarrow> AList.update k v d = d @ [(k, v)]"
  by (induction d) auto

lemma values_update: "snd ` set (AList.update k v d) \<subseteq> insert v (snd ` set d)"
  by (induction d) auto

lemma values_delete: "snd ` set (AList.delete k d) \<subseteq> snd ` set d"
  by (auto simp: AList.delete_eq)

lemma pop_Some:
  "pop k d = Some (v, d') \<Longrightarrow> v \<in> snd ` set d \<and> d' = AList.delete k d \<and> map_of d k = Some v"
  by (auto simp: pop_def split: option.splits dest!: map_of_SomeD intro: rev_image_eqI)

lemma count_list_map_distinct:
  "inj f \<Longrightarrow> distinct xs \<Longrightarrow> x \<in> set xs \<Longrightarrow> count_list (map f xs) (f x) = 1"
  by (induction xs) (auto simp: inj_def count_list_0_iff)

lemma kill_all_delivered:
  "\<forall>c\<in>set cs. os_kill os c sig = None \<Longrightarrow>
     kill_all os sig pre cs = (None, concat (map (\<lambda>c. pre c @ [Signalled c sig]) cs))"
  by (induction cs) auto

text \<open>A failing \<^verbatim>\<open>os.kill\<close> ends the loop: the later children get no signal.\<close>

lemma kill_all_failed:
  "os_kill os c sig = Some e \<Longrightarrow> \<forall>c'\<in>set cs. os_kill os c' sig = None \<Longrightarrow>
     kill_all os sig pre (cs @ c # cs') =
       (Some (OSError e), concat (map (\<lambda>c. pre c @ [Signalled c sig]) cs) @ pre c)"
  by (induction cs) auto

lemma ctor_kwargs_spawn: "ctor_kwargs (fst (spawn imp st kw)) = AList.merge (kwargs st) kw"
  by (simp add: spawn_def Let_def split: pyval.splits)

lemma spawn_state:
  "sandboxes (snd (spawn imp st kw)) = sandboxes st
   \<and> shutdown (snd (spawn imp st kw)) = shutdown st
   \<and> kwargs (snd (spawn imp st kw)) = kwargs st"
  by (simp add: spawn_def Let_def split: pyval.splits)




lemma child_block_result:
  "\<exists>r tr. child_block imp unit_run st sandbox kw =
            (r, fst (spawn imp st kw), snd (spawn imp st kw), tr)
          \<and> constructed tr = [fst (spawn imp st kw)]"
proof (cases "spawn imp st kw")
  case (Pair ctor st')
  then show ?thesis
    by (cases "unit_run ctor") (simp_all add: child_block_def constructed_def)
qed

lemma child_block_cases:
  obtains (running) tr where
      "child_block imp unit_run st sandbox kw =
         (None, fst (spawn imp st kw), snd (spawn imp st kw), tr)"
      "constructed tr = [fst (spawn imp st kw)]"
  | (left) e tr where
      "child_block imp unit_run st sandbox kw =
         (Some e, fst (spawn imp st kw), snd (spawn imp st kw), tr)"
      "constructed tr = [fst (spawn imp st kw)]"
proof -
  from child_block_result [of imp unit_run st sandbox kw] obtain r tr where
    r: "child_block imp unit_run st sandbox kw =
          (r, fst (spawn imp st kw), snd (spawn imp st kw), tr)"
    and c: "constructed tr = [fst (spawn imp st kw)]"
    by blast
  show thesis
  proof (cases r)
    case None
    with r c running show ?thesis by simp
  next
    case (Some e)
    with r c left show ?thesis by simp
  qed
qed

lemma sandbox_path_explicit:
  "sandbox_path cwd i =
     (if cwd = [] \<or> last cwd = CHR ''/'' then cwd else cwd @ ''/'')
       @ ''qless-py-workers/sandbox-'' @ str_nat i"
  by (simp add: sandbox_path_def path_join_def join_step_def)

lemma str_nat_0: "str_nat 0 = ''0''"
  by (simp add: str_nat.simps digit_def)

lemma str_nat_1: "str_nat (Suc 0) = ''1''"
  by (simp add: str_nat.simps digit_def)

lemma upt2: "[0..<2] = [0, 1]"
  by (simp add: upt_rec)

section \<open>What a round of the wait loop does to the state\<close>

text \<open>
  A round leaves the flag and the stored options alone. The record is unchanged, or one
  tracked child has been removed, or one tracked child has been removed and a new pid
  holds its sandbox.
\<close>

lemma iteration_state:
  assumes "state_of (fst (iteration imp unit_run st ev)) = Some st'"
  shows "shutdown st' = shutdown st \<and> kwargs st' = kwargs st
       \<and> (sandboxes st' = sandboxes st
          \<or> (\<exists>pid sb. map_of (sandboxes st) pid = Some sb
               \<and> (sandboxes st' = AList.delete pid (sandboxes st)
                  \<or> (\<exists>cpid. sandboxes st' =
                        AList.update cpid sb (AList.delete pid (sandboxes st))))))"
proof (cases "fst ev")
  case (Inl e)
  with assms show ?thesis by (simp add: iteration_def on_exception_def split: if_splits)
next
  case (Inr ps)
  obtain pid status where ps: "ps = (pid, status)" by (cases ps)
  show ?thesis
  proof (cases "pop pid (sandboxes st)")
    case None
    with assms Inr ps show ?thesis
      by (simp add: iteration_def on_exception_def split: if_splits)
  next
    case (Some a)
    obtain sb d where a: "a = (sb, d)" by (cases a)
    from pop_Some [of pid "sandboxes st" sb d] Some a
    have sb: "map_of (sandboxes st) pid = Some sb" and d: "d = AList.delete pid (sandboxes st)"
      by simp_all
    let ?st1 = "st\<lparr>sandboxes := d\<rparr>"
    show ?thesis
    proof (cases "snd ev")
      case (Inl e)
      with assms Inr ps Some a have "st' = ?st1"
        by (simp add: iteration_def on_exception_def Let_def split: if_splits)
      with sb d show ?thesis by auto
    next
      case fk: (Inr cpid)
      show ?thesis
      proof (cases "cpid = 0")
        case False
        with assms Inr ps Some a fk
        have "st' = st\<lparr>sandboxes := AList.update cpid sb d\<rparr>"
          by (simp add: iteration_def)
        with sb d show ?thesis by auto
      next
        case True
        let ?kw = "[(''sandbox'', PyStr sb)]"
        have "st' = snd (spawn imp ?st1 ?kw)"
        proof (cases rule: child_block_cases [of imp unit_run ?st1 sb ?kw])
          case (running tr)
          with assms Inr ps Some a fk True show ?thesis by (simp add: iteration_def)
        next
          case (left e tr)
          with assms Inr ps Some a fk True show ?thesis
            by (simp add: iteration_def on_exception_def split: if_splits)
        qed
        with spawn_state [of imp ?st1 ?kw] sb d show ?thesis by auto
      qed
    qed
  qed
qed

lemma iteration_shutdown:
  "state_of (fst (iteration imp unit_run st ev)) = Some st' \<Longrightarrow> shutdown st' = shutdown st"
  using iteration_state by blast

lemma iteration_kwargs:
  "state_of (fst (iteration imp unit_run st ev)) = Some st' \<Longrightarrow> kwargs st' = kwargs st"
  using iteration_state by blast

lemma iteration_paths:
  assumes "state_of (fst (iteration imp unit_run st ev)) = Some st'"
  shows "snd ` set (sandboxes st') \<subseteq> snd ` set (sandboxes st)"
proof -
  have v: "sb \<in> snd ` set (sandboxes st)" if "map_of (sandboxes st) pid = Some sb" for pid sb
    using that by (auto dest!: map_of_SomeD intro: rev_image_eqI)
  from iteration_state [OF assms] consider
      "sandboxes st' = sandboxes st"
    | pid sb where "map_of (sandboxes st) pid = Some sb"
        "sandboxes st' = AList.delete pid (sandboxes st)"
    | pid sb cpid where "map_of (sandboxes st) pid = Some sb"
        "sandboxes st' = AList.update cpid sb (AList.delete pid (sandboxes st))"
    by blast
  then show ?thesis
  proof cases
    case 1
    then show ?thesis by simp
  next
    case 2
    then show ?thesis using values_delete [of pid "sandboxes st"] by simp
  next
    case 3
    with values_update [of cpid sb "AList.delete pid (sandboxes st)"]
      values_delete [of pid "sandboxes st"] v [of pid sb]
    show ?thesis by auto
  qed
qed

lemma iteration_length_le:
  assumes "state_of (fst (iteration imp unit_run st ev)) = Some st'"
  shows "length (sandboxes st') \<le> length (sandboxes st)"
proof -
  from iteration_state [OF assms] consider
      "sandboxes st' = sandboxes st"
    | pid sb where "map_of (sandboxes st) pid = Some sb"
        "sandboxes st' = AList.delete pid (sandboxes st)"
    | pid sb cpid where "map_of (sandboxes st) pid = Some sb"
        "sandboxes st' = AList.update cpid sb (AList.delete pid (sandboxes st))"
    by blast
  then show ?thesis
  proof cases
    case 1
    then show ?thesis by simp
  next
    case 2
    with length_delete_less [of "sandboxes st" pid sb] show ?thesis by simp
  next
    case 3
    with length_delete_less [of "sandboxes st" pid sb]
      length_update_le [of cpid sb "AList.delete pid (sandboxes st)"]
    show ?thesis by simp
  qed
qed

text \<open>
  A round that leaves the record as long as it was has changed nothing, or has put a fresh
  pid in the place of a dead child: every path is recorded as often as before.
\<close>

lemma iteration_same_size:
  assumes "state_of (fst (iteration imp unit_run st ev)) = Some st'"
    and "distinct (keys (sandboxes st))"
    and "length (sandboxes st') = length (sandboxes st)"
  shows "distinct (keys (sandboxes st'))
       \<and> (\<forall>p. count_list (map snd (sandboxes st')) p = count_list (map snd (sandboxes st)) p)"
proof -
  from iteration_state [OF assms(1)] consider
      "sandboxes st' = sandboxes st"
    | pid sb where "map_of (sandboxes st) pid = Some sb"
        "sandboxes st' = AList.delete pid (sandboxes st)"
    | pid sb cpid where "map_of (sandboxes st) pid = Some sb"
        "sandboxes st' = AList.update cpid sb (AList.delete pid (sandboxes st))"
    by blast
  then show ?thesis
  proof cases
    case 1
    with assms(2) show ?thesis by simp
  next
    case 2
    with length_delete_less [of "sandboxes st" pid sb] assms(3) show ?thesis by simp
  next
    case 3
    let ?d = "AList.delete pid (sandboxes st)"
    have len: "Suc (length ?d) = length (sandboxes st)"
      using assms(2) 3(1) by (simp add: keys_def length_delete_distinct)
    have fresh: "cpid \<notin> fst ` set ?d"
    proof
      assume "cpid \<in> fst ` set ?d"
      then have "length (AList.update cpid sb ?d) = length ?d" by (rule length_update_old)
      with 3(2) assms(3) len show False by simp
    qed
    have st': "sandboxes st' = ?d @ [(cpid, sb)]" using 3(2) fresh by (simp add: update_fresh)
    have dd: "distinct (map fst ?d)" using assms(2) by (simp add: keys_def AList.distinct_delete)
    have "distinct (keys (sandboxes st'))" using st' dd fresh by (simp add: keys_def)
    moreover have "count_list (map snd (sandboxes st')) p = count_list (map snd (sandboxes st)) p"
      for p
      using count_list_delete [of "sandboxes st" pid sb p] assms(2) 3(1) st'
      by (simp add: keys_def)
    ultimately show ?thesis by blast
  qed
qed

text \<open>What every round preserves, the loop preserves.\<close>

lemma wait_loop_invariant:
  assumes step: "\<And>st ev st'. P st \<Longrightarrow>
       state_of (fst (iteration imp unit_run st ev)) = Some st' \<Longrightarrow> P st'"
    and "P st" and "state_of (fst (wait_loop imp unit_run st evs)) = Some st'"
  shows "P st'"
  using assms(2,3)
proof (induction evs arbitrary: st)
  case Nil
  then show ?case by (auto split: if_splits)
next
  case (Cons ev evs)
  show ?case
  proof (cases "shutdown st")
    case True
    with Cons.prems show ?thesis by auto
  next
    case False
    obtain r tr where it: "iteration imp unit_run st ev = (r, tr)"
      by (cases "iteration imp unit_run st ev")
    show ?thesis
    proof (cases r)
      case (Done st1)
      with it step [OF Cons.prems(1), of ev st1] have p1: "P st1" by simp
      from Done it False Cons.prems(2)
      have "state_of (fst (wait_loop imp unit_run st1 evs)) = Some st'"
        by (simp split: prod.splits)
      from Cons.IH [OF p1 this] show ?thesis .
    next
      case (Raised e st1)
      with it False Cons.prems(2) have "st1 = st'" by simp
      with Raised it step [OF Cons.prems(1), of ev st'] show ?thesis by simp
    next
      case (Child c)
      with it False Cons.prems(2) show ?thesis by simp
    next
      case (Blocked st1)
      with it False Cons.prems(2) have "st1 = st'" by simp
      with Blocked it step [OF Cons.prems(1), of ev st'] show ?thesis by simp
    qed
  qed
qed

lemma wait_loop_shutdown:
  assumes "state_of (fst (wait_loop imp unit_run st evs)) = Some st'"
  shows "shutdown st' = shutdown st"
  by (rule wait_loop_invariant [where P = "\<lambda>s. shutdown s = shutdown st", OF _ _ assms])
     (simp_all add: iteration_shutdown)

lemma wait_loop_kwargs:
  assumes "state_of (fst (wait_loop imp unit_run st evs)) = Some st'"
  shows "kwargs st' = kwargs st"
  by (rule wait_loop_invariant [where P = "\<lambda>s. kwargs s = kwargs st", OF _ _ assms])
     (simp_all add: iteration_kwargs)

lemma wait_loop_paths:
  assumes "state_of (fst (wait_loop imp unit_run st evs)) = Some st'"
  shows "snd ` set (sandboxes st') \<subseteq> snd ` set (sandboxes st)"
proof (rule wait_loop_invariant
         [where P = "\<lambda>s. snd ` set (sandboxes s) \<subseteq> snd ` set (sandboxes st)", OF _ _ assms])
  fix s ev s'
  assume "snd ` set (sandboxes s) \<subseteq> snd ` set (sandboxes st)"
    and "state_of (fst (iteration imp unit_run s ev)) = Some s'"
  with iteration_paths [of imp unit_run s ev s']
  show "snd ` set (sandboxes s') \<subseteq> snd ` set (sandboxes st)" by blast
qed simp

lemma wait_loop_length_le:
  assumes "state_of (fst (wait_loop imp unit_run st evs)) = Some st'"
  shows "length (sandboxes st') \<le> length (sandboxes st)"
proof (rule wait_loop_invariant
         [where P = "\<lambda>s. length (sandboxes s) \<le> length (sandboxes st)", OF _ _ assms])
  fix s ev s'
  assume "length (sandboxes s) \<le> length (sandboxes st)"
    and "state_of (fst (iteration imp unit_run s ev)) = Some s'"
  with iteration_length_le [of imp unit_run s ev s']
  show "length (sandboxes s') \<le> length (sandboxes st)" by simp
qed simp

text \<open>
  The record never grows in the loop, so a loop that ends with a record as long as at its
  start has kept the length in every round.
\<close>

lemma wait_loop_same_size:
  assumes "state_of (fst (wait_loop imp unit_run st evs)) = Some st'"
    and "distinct (keys (sandboxes st))"
    and "length (sandboxes st') = length (sandboxes st)"
  shows "distinct (keys (sandboxes st'))
       \<and> (\<forall>p. count_list (map snd (sandboxes st')) p = count_list (map snd (sandboxes st)) p)"
  using assms
proof (induction evs arbitrary: st)
  case Nil
  then show ?case by (auto split: if_splits)
next
  case (Cons ev evs)
  show ?case
  proof (cases "shutdown st")
    case True
    with Cons.prems show ?thesis by auto
  next
    case False
    obtain r tr where it: "iteration imp unit_run st ev = (r, tr)"
      by (cases "iteration imp unit_run st ev")
    show ?thesis
    proof (cases r)
      case (Done st1)
      with it have s1: "state_of (fst (iteration imp unit_run st ev)) = Some st1" by simp
      from Done it False Cons.prems(1)
      have w: "state_of (fst (wait_loop imp unit_run st1 evs)) = Some st'"
        by (simp split: prod.splits)
      from iteration_length_le [OF s1] wait_loop_length_le [OF w] Cons.prems(3)
      have l1: "length (sandboxes st1) = length (sandboxes st)"
        and l2: "length (sandboxes st') = length (sandboxes st1)" by simp_all
      from iteration_same_size [OF s1 Cons.prems(2) l1]
      have d1: "distinct (keys (sandboxes st1))"
        and c1: "\<forall>p. count_list (map snd (sandboxes st1)) p
                      = count_list (map snd (sandboxes st)) p" by simp_all
      from Cons.IH [OF w d1 l2] c1 show ?thesis by simp
    next
      case (Raised e st1)
      with it False Cons.prems(1) have "st1 = st'" by simp
      with Raised it have "state_of (fst (iteration imp unit_run st ev)) = Some st'" by simp
      from iteration_same_size [OF this Cons.prems(2,3)] show ?thesis .
    next
      case (Child c)
      with it False Cons.prems(1) show ?thesis by simp
    next
      case (Blocked st1)
      with it False Cons.prems(1) have "st1 = st'" by simp
      with Blocked it have "state_of (fst (iteration imp unit_run st ev)) = Some st'" by simp
      from iteration_same_size [OF this Cons.prems(2,3)] show ?thesis .
    qed
  qed
qed

lemma wait_loop_flag_set: "shutdown st \<Longrightarrow> wait_loop imp unit_run st evs = (Done st, [])"
  by (cases evs) simp_all

lemma wait_loop_not_done:
  "\<not> shutdown st \<Longrightarrow> fst (wait_loop imp unit_run st evs) \<noteq> Done st'"
proof (induction evs arbitrary: st)
  case Nil
  then show ?case by simp
next
  case (Cons ev evs)
  obtain r tr where it: "iteration imp unit_run st ev = (r, tr)"
    by (cases "iteration imp unit_run st ev")
  show ?case
  proof (cases r)
    case (Done st1)
    with it have "shutdown st1 = shutdown st"
      using iteration_shutdown [of imp unit_run st ev st1] by simp
    with Cons.prems have "\<not> shutdown st1" by simp
    from Cons.IH [OF this] Done it Cons.prems show ?thesis
      by (auto split: prod.splits)
  next
    case (Raised e st1)
    with it Cons.prems show ?thesis by simp
  next
    case (Child c)
    with it Cons.prems show ?thesis by simp
  next
    case (Blocked st1)
    with it Cons.prems show ?thesis by simp
  qed
qed



section \<open>The first loop of run\<close>

lemma launch_state:
  "state_of (fst (launch imp unit_run cwd res fork idxs st)) = Some st' \<Longrightarrow>
     shutdown st' = shutdown st \<and> kwargs st' = kwargs st
     \<and> snd ` set (sandboxes st') \<subseteq> snd ` set (sandboxes st) \<union> sandbox_path cwd ` set idxs"
proof (induction idxs arbitrary: st)
  case Nil
  then show ?case by simp
next
  case (Cons i idxs)
  show ?case
  proof (cases "fork i")
    case (Inl e)
    with Cons.prems show ?thesis by auto
  next
    case (Inr cpid)
    show ?thesis
    proof (cases "cpid = 0")
      case True
      show ?thesis
      proof (cases "i < length res")
        case False
        with True Inr Cons.prems show ?thesis by (auto simp: Let_def)
      next
        case inr: True
        let ?kw = "[(''resume'', PyJobs (res ! i)), (''sandbox'', PyStr (sandbox_path cwd i))]"
        have "st' = snd (spawn imp st ?kw)"
        proof (cases rule: child_block_cases [of imp unit_run st "sandbox_path cwd i" ?kw])
          case (running tr)
          with True Inr inr Cons.prems show ?thesis by (simp add: Let_def)
        next
          case (left e tr)
          with True Inr inr Cons.prems show ?thesis by (simp add: Let_def)
        qed
        with spawn_state [of imp st ?kw] show ?thesis by auto
      qed
    next
      case False
      let ?st1 = "st\<lparr>sandboxes := AList.update cpid (sandbox_path cwd i) (sandboxes st)\<rparr>"
      from False Inr Cons.prems
      have "state_of (fst (launch imp unit_run cwd res fork idxs ?st1)) = Some st'"
        by (simp add: Let_def split: prod.splits)
      from Cons.IH [OF this]
      have f: "shutdown st' = shutdown st" "kwargs st' = kwargs st"
        and p: "snd ` set (sandboxes st')
                 \<subseteq> snd ` set (AList.update cpid (sandbox_path cwd i) (sandboxes st))
                     \<union> sandbox_path cwd ` set idxs"
        by simp_all
      from p values_update [of cpid "sandbox_path cwd i" "sandboxes st"]
      have "snd ` set (sandboxes st')
              \<subseteq> insert (sandbox_path cwd i) (snd ` set (sandboxes st))
                  \<union> sandbox_path cwd ` set idxs"
        by blast
      then have "snd ` set (sandboxes st')
              \<subseteq> snd ` set (sandboxes st) \<union> sandbox_path cwd ` set (i # idxs)"
        by auto
      with f show ?thesis by simp
    qed
  qed
qed

lemma launch_parent:
  assumes "\<forall>i\<in>set idxs. fork i = Inr (cpid i) \<and> cpid i \<noteq> 0"
  shows "launch imp unit_run cwd res fork idxs st =
     (Done (st\<lparr>sandboxes :=
              foldl (\<lambda>d i. AList.update (cpid i) (sandbox_path cwd i) d) (sandboxes st) idxs\<rparr>),
      concat (map (\<lambda>i. [Forked (cpid i), Info (SpawnedWorker (cpid i))]) idxs))"
  using assms by (induction idxs arbitrary: st) (simp_all add: Let_def)

lemma foldl_update_fresh:
  "distinct (map k idxs) \<Longrightarrow> set (map k idxs) \<inter> fst ` set d = {} \<Longrightarrow>
     foldl (\<lambda>d i. AList.update (k i) (v i) d) d idxs = d @ map (\<lambda>i. (k i, v i)) idxs"
proof (induction idxs arbitrary: d)
  case Nil
  then show ?case by simp
next
  case (Cons i idxs)
  from Cons.prems have fresh: "k i \<notin> fst ` set d" by auto
  have "set (map k idxs) \<inter> fst ` set (d @ [(k i, v i)]) = {}"
    using Cons.prems by auto
  with Cons.IH [of "d @ [(k i, v i)]"] Cons.prems(1) fresh
  show ?case by (simp add: update_fresh)
qed

lemma launch_record:
  assumes "\<forall>i<N. fork i = Inr (cpid i) \<and> cpid i \<noteq> 0"
    and "inj_on cpid {..<N}" and "sandboxes st = []"
  shows "fst (launch imp unit_run cwd res fork [0..<N] st) =
           Done (st\<lparr>sandboxes := map (\<lambda>i. (cpid i, sandbox_path cwd i)) [0..<N]\<rparr>)"
proof -
  have a: "\<forall>i\<in>set [0..<N]. fork i = Inr (cpid i) \<and> cpid i \<noteq> 0" using assms(1) by simp
  have "inj_on cpid (set [0..<N])" using assms(2) by (simp add: lessThan_atLeast0)
  then have d: "distinct (map cpid [0..<N])" by (simp add: distinct_map)
  show ?thesis
    using foldl_update_fresh [OF d, of "[]" "sandbox_path cwd"] assms(3)
    by (simp add: launch_parent [OF a])
qed


section \<open>Stopping, and the whole of run\<close>

lemma handler_state: "fst (snd (handler os st signum)) = st"
  by (simp add: handler_def split: prod.splits option.splits)

lemma reap_one_paths:
  assumes "reap_one os cpid pid sbs = (r, pid', sbs', tr)"
  shows "snd ` set sbs' \<subseteq> snd ` set sbs"
proof -
  have "sbs' = sbs \<or> (\<exists>p. sbs' = AList.delete p sbs)"
  proof (cases "os_waitpid os cpid")
    case (Inl e)
    with assms show ?thesis
      by (cases e; cases pid) (auto simp: reap_one_def)
  next
    case (Inr ps)
    with assms show ?thesis
      by (cases ps) (auto simp: reap_one_def)
  qed
  with values_delete [of _ sbs] show ?thesis by auto
qed

lemma reap_all_paths:
  "reap_all os cs pid sbs = (r, sbs', tr) \<Longrightarrow> snd ` set sbs' \<subseteq> snd ` set sbs"
proof (induction cs arbitrary: pid sbs r sbs' tr)
  case Nil
  then show ?case by simp
next
  case (Cons c cs)
  obtain r1 pid1 sbs1 tr1 where one: "reap_one os c pid sbs = (r1, pid1, sbs1, tr1)"
    by (cases "reap_one os c pid sbs")
  have s1: "snd ` set sbs1 \<subseteq> snd ` set sbs" using reap_one_paths [OF one] .
  show ?case
  proof (cases r1)
    case None
    obtain r2 sbs2 tr2 where rest: "reap_all os cs pid1 sbs1 = (r2, sbs2, tr2)"
      by (cases "reap_all os cs pid1 sbs1")
    with None one Cons.prems have "sbs' = sbs2" by simp
    with Cons.IH [OF rest] s1 show ?thesis by blast
  next
    case (Some e)
    with one Cons.prems have "sbs' = sbs1" by simp
    with s1 show ?thesis by simp
  qed
qed

text \<open>\<^verbatim>\<open>stop\<close> changes nothing but the record, and it only removes entries from it.\<close>

lemma stop_state:
  "\<exists>sbs. fst (snd (stop os sig st)) = st\<lparr>sandboxes := sbs\<rparr>
         \<and> snd ` set sbs \<subseteq> snd ` set (sandboxes st)"
proof (cases "kill_all os sig (\<lambda>cpid. [Warn (Stopping cpid)]) (keys (sandboxes st))")
  case (Pair r tr)
  show ?thesis
  proof (cases r)
    case None
    obtain r2 sbs2 tr2 where
      rest: "reap_all os (keys (sandboxes st)) None (sandboxes st) = (r2, sbs2, tr2)"
      by (cases "reap_all os (keys (sandboxes st)) None (sandboxes st)")
    with Pair None have "fst (snd (stop os sig st)) = st\<lparr>sandboxes := sbs2\<rparr>"
      by (simp add: stop_def)
    with reap_all_paths [OF rest] show ?thesis by blast
  next
    case (Some e)
    with Pair have "fst (snd (stop os sig st)) = st\<lparr>sandboxes := sandboxes st\<rparr>"
      by (simp add: stop_def)
    then show ?thesis by blast
  qed
qed

lemma stop_shutdown: "shutdown (fst (snd (stop os sig st))) = shutdown st"
  using stop_state [of os sig st] by auto

lemma finally_stop_state:
  assumes "state_of (fst (finally_stop os (r, tr))) = Some st'"
  shows "\<exists>st1 sbs. state_of r = Some st1 \<and> st' = st1\<lparr>sandboxes := sbs\<rparr>
           \<and> snd ` set sbs \<subseteq> snd ` set (sandboxes st1)"
proof (cases r)
  case (Done st1)
  with assms have "st' = fst (snd (stop os SIGKILL st1))"
    by (auto simp: finally_stop_def split: prod.splits sum.splits)
  with stop_state [of os SIGKILL st1] Done show ?thesis by auto
next
  case (Raised e st1)
  with assms have "st' = fst (snd (stop os SIGKILL st1))"
    by (auto simp: finally_stop_def split: prod.splits sum.splits)
  with stop_state [of os SIGKILL st1] Raised show ?thesis by auto
next
  case (Child c)
  with assms show ?thesis by (simp add: finally_stop_def)
next
  case (Blocked st1)
  with assms have "st' = st1\<lparr>sandboxes := sandboxes st1\<rparr>" by (simp add: finally_stop_def)
  with Blocked show ?thesis
    by (intro exI [of _ st1] exI [of _ "sandboxes st1"]) simp
qed

lemma run_not_int:
  "\<forall>n. count st \<noteq> PyInt n \<Longrightarrow>
     run imp unit_run divide_jobs cwd fork os st evs =
       (Raised TypeError st, [RegisterSignals [SIGTERM, SIGINT, SIGQUIT, SIGHUP]])"
  by (cases "count st") (simp_all add: run_def)

lemma run_state:
  assumes "state_of (fst (run imp unit_run divide_jobs cwd fork os st evs)) = Some st'"
  shows "shutdown st' = shutdown st \<and> kwargs st' = kwargs st
       \<and> (\<forall>n. count st = PyInt n \<longrightarrow>
            snd ` set (sandboxes st')
              \<subseteq> snd ` set (sandboxes st) \<union> sandbox_path cwd ` {0..<nat n})"
proof (cases "\<exists>n. count st = PyInt n")
  case False
  with assms run_not_int [of st imp unit_run divide_jobs cwd fork os evs] show ?thesis by simp
next
  case True
  then obtain n where n: "count st = PyInt n" by blast
  let ?S = "snd ` set (sandboxes st) \<union> sandbox_path cwd ` {0..<nat n}"
  let ?res = "divide_jobs (resume st) n"
  obtain r1 tr1 where l: "launch imp unit_run cwd ?res fork [0..<nat n] st = (r1, tr1)"
    by (cases "launch imp unit_run cwd ?res fork [0..<nat n] st")
  have l': "shutdown s = shutdown st \<and> kwargs s = kwargs st \<and> snd ` set (sandboxes s) \<subseteq> ?S"
    if "state_of r1 = Some s" for s
    using launch_state [of imp unit_run cwd ?res fork "[0..<nat n]" st s] l that by simp
  have goal: ?thesis
    if "shutdown st' = shutdown st \<and> kwargs st' = kwargs st \<and> snd ` set (sandboxes st') \<subseteq> ?S"
    using that n by simp
  show ?thesis
  proof (cases r1)
    case (Done st1)
    obtain r2 tr2 where w: "wait_loop imp unit_run st1 evs = (r2, tr2)"
      by (cases "wait_loop imp unit_run st1 evs")
    from assms n l Done w
    have "state_of (fst (finally_stop os (r2, tr2))) = Some st'"
      by (simp add: run_def split: prod.splits)
    from finally_stop_state [OF this] obtain st2 sbs where
      st2: "state_of r2 = Some st2" and st': "st' = st2\<lparr>sandboxes := sbs\<rparr>"
      and sub: "snd ` set sbs \<subseteq> snd ` set (sandboxes st2)"
      by blast
    from st2 w have w2: "state_of (fst (wait_loop imp unit_run st1 evs)) = Some st2" by simp
    from l' [of st1] Done
    have f1: "shutdown st1 = shutdown st" "kwargs st1 = kwargs st"
      and p1: "snd ` set (sandboxes st1) \<subseteq> ?S" by simp_all
    from st' sub have "snd ` set (sandboxes st') \<subseteq> snd ` set (sandboxes st2)" by simp
    also have "\<dots> \<subseteq> snd ` set (sandboxes st1)" by (rule wait_loop_paths [OF w2])
    also have "\<dots> \<subseteq> ?S" by (rule p1)
    finally have p: "snd ` set (sandboxes st') \<subseteq> ?S" .
    from st' wait_loop_shutdown [OF w2] wait_loop_kwargs [OF w2] f1
    have "shutdown st' = shutdown st \<and> kwargs st' = kwargs st" by simp
    with p show ?thesis by (intro goal) simp
  next
    case (Raised e st1)
    with assms n l l' [of st1] show ?thesis by (intro goal) (simp add: run_def)
  next
    case (Child c)
    with assms n l show ?thesis by (simp add: run_def)
  next
    case (Blocked st1)
    with assms n l l' [of st1] show ?thesis by (intro goal) (simp add: run_def)
  qed
qed

lemma run_shutdown:
  "state_of (fst (run imp unit_run divide_jobs cwd fork os st evs)) = Some st' \<Longrightarrow>
     shutdown st' = shutdown st"
  using run_state by blast

lemma run_paths:
  assumes "state_of (fst (run imp unit_run divide_jobs cwd fork os st evs)) = Some st'"
    and "count st = PyInt n" and "sandboxes st = []"
  shows "snd ` set (sandboxes st') \<subseteq> sandbox_path cwd ` {0..<nat n}"
  using run_state [OF assms(1)] assms(2,3) by simp

text \<open>
  The block of a replacement child is inside the \<^verbatim>\<open>try\<close> of the loop. When the worker
  unit of the replacement for child 101 returns, \<^verbatim>\<open>exit(0)\<close> leaves the loop in the child
  and the \<^verbatim>\<open>finally\<close> clause runs there: the child sends \<^verbatim>\<open>SIGKILL\<close> to child 102, which
  is in its copy of the record, and the \<^verbatim>\<open>waitpid\<close> for a process that is not its own
  child fails. A child forked at startup is outside the \<^verbatim>\<open>try\<close> and just exits.
\<close>

lemma replacement_child_exit_runs_stop:
  "finally_stop os_no_child (wait_loop PyClass returns sup2 [(Inr (101, 256), Inr 0)]) =
     (Raised (UnboundLocalError ''pid'')
        (sup2\<lparr>sandboxes := [(102, ''/srv/qless-py-workers/sandbox-1'')]\<rparr>),
      [Reaped 101 256, Warn (DiedWith 101 1 0),
       EnterSandbox ''/srv/qless-py-workers/sandbox-0'',
       Chdir ''/srv/qless-py-workers/sandbox-0'',
       RunUnit \<lparr> ctor_klass = PyClass ''SerialWorker'', ctor_queues = [''mail''],
                 ctor_client = ''redis'',
                 ctor_kwargs = [(''interval'', PyInt 60),
                                (''sandbox'', PyStr ''/srv/qless-py-workers/sandbox-0'')] \<rparr>,
       LeaveSandbox ''/srv/qless-py-workers/sandbox-0'',
       Warn (Stopping 102), Signalled 102 SIGKILL,
       Info (WaitingFor 102), Exception (ErrorWaitingFor 102)])"
  by (simp add: sup2_def os_no_child_def iteration_def pop_def child_block_def spawn_def
        returns_def on_exception_def finally_stop_def stop_def keys_def reap_one_def Let_def)

lemma startup_child_exit:
  "fst (run PyClass returns no_jobs ''/srv'' (fork_child_at 1) os_ok sup0 []) =
     Raised (SystemExit 0) (sup0\<lparr>sandboxes := [(101, ''/srv/qless-py-workers/sandbox-0'')]\<rparr>)"
  by (simp add: sup0_def run_def no_jobs_def fork_child_at_def upt2 child_block_def spawn_def
        returns_def sandbox_path_explicit str_nat_0 str_nat_1 Let_def)

section \<open>When every call of stop succeeds\<close>

lemma reap_one_success:
  "os_waitpid os c = Inr (c, s) \<Longrightarrow>
     reap_one os c pid sbs =
       (None, Some c, AList.delete c sbs,
        [Info (WaitingFor c), Reaped c s, Warn (StoppedWith c (s div 256))])"
  by (simp add: reap_one_def)

lemma reap_all_success:
  assumes "\<forall>c\<in>set cs. \<exists>s. os_waitpid os c = Inr (c, s)"
  shows "fst (reap_all os cs pid sbs) = None
       \<and> fst (snd (reap_all os cs pid sbs)) = filter (\<lambda>kv. fst kv \<notin> set cs) sbs"
  using assms
proof (induction cs arbitrary: pid sbs)
  case Nil
  then show ?case by simp
next
  case (Cons c cs)
  then obtain s where s: "os_waitpid os c = Inr (c, s)" by auto
  from Cons.prems have rest: "\<forall>c\<in>set cs. \<exists>s. os_waitpid os c = Inr (c, s)" by simp
  have f: "filter (\<lambda>kv. fst kv \<notin> set cs) (AList.delete c sbs)
             = filter (\<lambda>kv. fst kv \<notin> set (c # cs)) sbs"
    by (induction sbs) (auto simp: AList.delete_eq)
  from Cons.IH [OF rest, of "Some c" "AList.delete c sbs"] f
  show ?case by (auto simp: reap_one_success [OF s] split: prod.splits)
qed

text \<open>
  If \<^verbatim>\<open>os.kill\<close> delivers the signal to every tracked child and every \<^verbatim>\<open>os.waitpid\<close>
  returns its child, \<^verbatim>\<open>stop\<close> returns and the sandbox record is empty.
\<close>

lemma stop_reaps_all:
  assumes "\<forall>c\<in>set (keys (sandboxes st)). os_kill os c sig = None"
    and "\<forall>c\<in>set (keys (sandboxes st)). \<exists>s. os_waitpid os c = Inr (c, s)"
  shows "fst (stop os sig st) = Inr () \<and> sandboxes (fst (snd (stop os sig st))) = []"
proof -
  let ?ks = "keys (sandboxes st)"
  obtain r sbs tr where ra: "reap_all os ?ks None (sandboxes st) = (r, sbs, tr)"
    by (cases "reap_all os ?ks None (sandboxes st)")
  from reap_all_success [OF assms(2), of None "sandboxes st"] ra
  have r: "r = None" and "sbs = filter (\<lambda>kv. fst kv \<notin> set ?ks) (sandboxes st)" by simp_all
  then have sbs: "sbs = []" by (simp add: keys_def)
  from kill_all_delivered [OF assms(1)] ra r sbs show ?thesis
    by (simp add: stop_def)
qed

section \<open>The path of a slot\<close>

lemma digit_code: "d < 10 \<Longrightarrow> of_char (digit d) = 48 + d"
proof -
  assume "d < 10"
  then consider "d = 0" | "d = 1" | "d = 2" | "d = 3" | "d = 4" | "d = 5" | "d = 6" | "d = 7"
    | "d = 8" | "d = 9" by atomize_elim arith
  then show ?thesis by cases (simp_all add: digit_def)
qed

lemma digit_is_digit: "d < 10 \<Longrightarrow> digit d \<in> set ''0123456789''"
  unfolding digit_def by (rule nth_mem) simp

lemma decimal_value_snoc:
  "decimal_value (s @ [c]) = 10 * decimal_value s + (of_char c - 48)"
  by (simp add: decimal_value_def)

text \<open>The index is rendered by its decimal digits: reading them gives the index back.\<close>

lemma decimal_value_str_nat: "decimal_value (str_nat n) = n"
proof (induction n rule: str_nat.induct)
  case (1 n)
  show ?case
  proof (cases "n < 10")
    case True
    then have "str_nat n = [digit n]" by (simp add: str_nat.simps)
    with True digit_code [of n] show ?thesis by (simp add: decimal_value_def)
  next
    case False
    then have s: "str_nat n = str_nat (n div 10) @ [digit (n mod 10)]"
      by (subst str_nat.simps) simp
    have "n mod 10 < 10" by simp
    from digit_code [OF this] "1.IH" [OF False] s show ?thesis
      by (simp add: decimal_value_snoc)
  qed
qed

lemma str_nat_digits: "set (str_nat n) \<subseteq> set ''0123456789''"
proof (induction n rule: str_nat.induct)
  case (1 n)
  show ?case
  proof (cases "n < 10")
    case True
    then have "str_nat n = [digit n]" by (simp add: str_nat.simps)
    with digit_is_digit [OF True] show ?thesis by simp
  next
    case False
    then have s: "str_nat n = str_nat (n div 10) @ [digit (n mod 10)]"
      by (subst str_nat.simps) simp
    have "n mod 10 < 10" by simp
    from digit_is_digit [OF this] "1.IH" [OF False] s show ?thesis by simp
  qed
qed

lemma str_nat_inj:
  assumes "str_nat m = str_nat n"
  shows "m = n"
proof -
  have "m = decimal_value (str_nat m)" by (simp only: decimal_value_str_nat)
  also have "\<dots> = decimal_value (str_nat n)" by (simp only: assms)
  also have "\<dots> = n" by (rule decimal_value_str_nat)
  finally show ?thesis .
qed

lemma sandbox_path_inj:
  assumes "sandbox_path cwd i = sandbox_path cwd j"
  shows "i = j"
proof (rule str_nat_inj)
  let ?pre = "(if cwd = [] \<or> last cwd = CHR ''/'' then cwd else cwd @ ''/'')
                @ ''qless-py-workers/sandbox-''"
  have "?pre @ str_nat i = ?pre @ str_nat j"
    using assms by (simp only: sandbox_path_explicit append_assoc)
  then show "str_nat i = str_nat j" by (simp only: same_append_eq)
qed

section \<open>The claims\<close>

text \<open>
  C1. The specification says that a wait event for a pid that is not a key of the sandbox
  record is ignored and the loop goes on waiting. In the code \<^verbatim>\<open>self.sandboxes.pop(pid)\<close> has
  no default: for the untracked pid 999 it raises \<^verbatim>\<open>KeyError\<close>, which
  \<^verbatim>\<open>except OSError\<close> does not catch. The loop ends with the exception, the next event is
  never waited for, and the \<^verbatim>\<open>finally\<close> clause kills and reaps both tracked children. The
  record itself is unchanged by the event and nothing is forked.
\<close>

theorem unknown_pid_is_fatal:
  "wait_loop PyClass forever sup2 [(Inr (999, 0), Inr 103), (Inr (101, 0), Inr 104)] =
     (Raised (KeyError 999) sup2, [Reaped 999 0, Warn (DiedWith 999 0 0)])
   \<and> fst (finally_stop os_ok
        (wait_loop PyClass forever sup2 [(Inr (999, 0), Inr 103), (Inr (101, 0), Inr 104)])) =
     Raised (KeyError 999) (sup2\<lparr>sandboxes := []\<rparr>)"
  by (simp add: sup2_def os_ok_def iteration_def pop_def on_exception_def finally_stop_def
        stop_def keys_def reap_one_def Let_def)

text \<open>
  C2. Respawn invariant. Let the record have distinct keys (it is a dictionary), let \<open>pid\<close>
  be tracked with sandbox \<open>sandbox\<close>, the shutdown flag be false, and let \<^verbatim>\<open>os.fork()\<close>
  return in the parent a pid that no remaining tracked child has. When \<^verbatim>\<open>os.wait()\<close>
  reports the exit of \<open>pid\<close>, the round forks exactly one child, records it under
  \<open>sandbox\<close>, replaces the key \<open>pid\<close> by the new pid, keeps the number of entries, and the
  loop goes on with the next event.
\<close>

theorem respawn_invariant:
  assumes "distinct (keys (sandboxes st))"
    and "map_of (sandboxes st) pid = Some sandbox"
    and "\<not> shutdown st"
    and "cpid \<noteq> 0"
    and "cpid \<notin> set (keys (AList.delete pid (sandboxes st)))"
  shows "\<exists>st' tr. iteration imp unit_run st (Inr (pid, status), Inr cpid) = (Done st', tr)
           \<and> wait_loop imp unit_run st ((Inr (pid, status), Inr cpid) # evs) =
               (fst (wait_loop imp unit_run st' evs), tr @ snd (wait_loop imp unit_run st' evs))
           \<and> forked tr = [cpid]
           \<and> map_of (sandboxes st') cpid = Some sandbox
           \<and> set (keys (sandboxes st')) = set (keys (sandboxes st)) - {pid} \<union> {cpid}
           \<and> length (sandboxes st') = length (sandboxes st)
           \<and> distinct (keys (sandboxes st'))"
proof -
  let ?d = "AList.delete pid (sandboxes st)"
  let ?st' = "st\<lparr>sandboxes := AList.update cpid sandbox ?d\<rparr>"
  let ?tr = "[Reaped pid status, Warn (DiedWith pid (status div 256) (status mod 256)),
              Forked cpid, Info (SpawnedReplacement cpid)]"
  have it: "iteration imp unit_run st (Inr (pid, status), Inr cpid) = (Done ?st', ?tr)"
    using assms(2,4) by (simp add: iteration_def pop_def Let_def)
  have loop: "wait_loop imp unit_run st ((Inr (pid, status), Inr cpid) # evs) =
               (fst (wait_loop imp unit_run ?st' evs), ?tr @ snd (wait_loop imp unit_run ?st' evs))"
    using assms(3) it by (simp add: case_prod_beta)
  have fk: "forked ?tr = [cpid]" by (simp add: forked_def)
  have look: "map_of (sandboxes ?st') cpid = Some sandbox"
    by (simp add: AList.update_conv')
  have ks: "set (keys (sandboxes ?st')) = set (keys (sandboxes st)) - {pid} \<union> {cpid}"
    by (simp add: keys_update keys_delete)
  have "Suc (length ?d) = length (sandboxes st)"
    using assms(1,2) by (simp add: keys_def length_delete_distinct)
  moreover have "length (AList.update cpid sandbox ?d) = Suc (length ?d)"
    using assms(5) by (simp add: keys_def length_update_new)
  ultimately have len: "length (sandboxes ?st') = length (sandboxes st)" by simp
  have dist: "distinct (keys (sandboxes ?st'))"
    using assms(1) by (simp add: keys_def AList.distinct_update AList.distinct_delete)
  show ?thesis using it loop fk look ks len dist by blast
qed

theorem respawn_invariant_witness:
  "iteration PyClass forever sup2 (Inr (101, 256), Inr 103) =
     (Done (sup2\<lparr>sandboxes := [(102, ''/srv/qless-py-workers/sandbox-1''),
                                (103, ''/srv/qless-py-workers/sandbox-0'')]\<rparr>),
      [Reaped 101 256, Warn (DiedWith 101 1 0), Forked 103, Info (SpawnedReplacement 103)])"
proof -
  have a: "distinct (keys (sandboxes sup2))" by (simp add: sup2_def keys_def)
  have b: "map_of (sandboxes sup2) 101 = Some ''/srv/qless-py-workers/sandbox-0''"
    by (simp add: sup2_def)
  have c: "\<not> shutdown sup2" by (simp add: sup2_def)
  have d: "(103::int) \<noteq> 0" by simp
  have e: "103 \<notin> set (keys (AList.delete 101 (sandboxes sup2)))"
    by (simp add: sup2_def keys_def)
  show ?thesis
    using respawn_invariant [OF a b c d e, of PyClass forever 256 "[]"]
    by (simp add: sup2_def iteration_def pop_def Let_def)
qed

text \<open>
  C3. The specification says that after the forceful-kill pass the sandbox record is empty
  and every tracked child has been reaped. The \<^verbatim>\<open>finally\<close> clause of \<^verbatim>\<open>stop\<close> pops \<^verbatim>\<open>pid\<close>,
  the pid of the last successful \<^verbatim>\<open>waitpid\<close>, not \<^verbatim>\<open>cpid\<close>. Here the wait loop is left by
  \<^verbatim>\<open>SystemExit\<close>, \<^verbatim>\<open>stop(SIGKILL)\<close> runs, and the \<^verbatim>\<open>waitpid\<close> for child 102 is interrupted:
  the error is logged, child 101 is popped a second time, \<^verbatim>\<open>stop\<close> returns normally, and
  child 102 is still in the record and has not been reaped.
\<close>

theorem stop_leaves_child_tracked:
  "finally_stop os_interrupted (wait_loop PyClass forever sup2 [(Inl (SystemExit 0), Inr 0)]) =
     (Raised (SystemExit 0) (sup2\<lparr>sandboxes := [(102, ''/srv/qless-py-workers/sandbox-1'')]\<rparr>),
      [Warn (Stopping 101), Signalled 101 SIGKILL, Warn (Stopping 102), Signalled 102 SIGKILL,
       Info (WaitingFor 101), Reaped 101 9, Warn (StoppedWith 101 0),
       Info (WaitingFor 102), Exception (ErrorWaitingFor 102)])
   \<and> stop os_interrupted SIGKILL sup2 =
     (Inr (), sup2\<lparr>sandboxes := [(102, ''/srv/qless-py-workers/sandbox-1'')]\<rparr>,
      [Warn (Stopping 101), Signalled 101 SIGKILL, Warn (Stopping 102), Signalled 102 SIGKILL,
       Info (WaitingFor 101), Reaped 101 9, Warn (StoppedWith 101 0),
       Info (WaitingFor 102), Exception (ErrorWaitingFor 102)])"
  by (simp add: sup2_def os_interrupted_def iteration_def on_exception_def finally_stop_def
        stop_def keys_def reap_one_def Let_def)

text \<open>
  C4. Signal fan-out. For a terminate, interrupt, quit or hangup signal, when \<^verbatim>\<open>os.kill\<close>
  delivers the signal to each tracked child, the handler sends exactly that signal to
  every tracked child, once each and to nobody else, and leaves the supervisor's state as
  it is. For hangup it then reloads the logging configuration and returns; for the other
  three it raises \<^verbatim>\<open>SystemExit(0)\<close>, and that exception leaves the wait loop.
\<close>

theorem handler_fan_out:
  assumes "signum \<in> {SIGTERM, SIGINT, SIGQUIT, SIGHUP}"
    and "distinct (keys (sandboxes st))"
    and "\<forall>c\<in>set (keys (sandboxes st)). os_kill os c signum = None"
  shows "handler os st signum =
           (if signum = SIGHUP then Inr () else Inl (SystemExit 0), st,
            map (\<lambda>c. Signalled c signum) (keys (sandboxes st))
              @ (if signum = SIGHUP then [ReloadLogger] else []))
         \<and> (\<forall>c\<in>set (keys (sandboxes st)).
              count_list (snd (snd (handler os st signum))) (Signalled c signum) = 1)
         \<and> (\<not> shutdown st \<longrightarrow>
              wait_loop imp unit_run st ((Inl (SystemExit 0), f) # evs)
                = (Raised (SystemExit 0) st, []))"
proof -
  let ?ks = "keys (sandboxes st)"
  have k: "kill_all os signum (\<lambda>_. []) ?ks = (None, map (\<lambda>c. Signalled c signum) ?ks)"
    using kill_all_delivered [OF assms(3), of "\<lambda>_. []"]
    by (simp add: concat_map_singleton)
  have h: "handler os st signum =
           (if signum = SIGHUP then Inr () else Inl (SystemExit 0), st,
            map (\<lambda>c. Signalled c signum) ?ks @ (if signum = SIGHUP then [ReloadLogger] else []))"
    using assms(1) k by (auto simp: handler_def)
  have inj: "inj (\<lambda>c. Signalled c signum)" by (simp add: inj_def)
  have once: "\<forall>c\<in>set ?ks. count_list (snd (snd (handler os st signum))) (Signalled c signum) = 1"
    using count_list_map_distinct [OF inj assms(2)] by (simp add: h)
  have ex: "\<not> shutdown st \<longrightarrow>
              wait_loop imp unit_run st ((Inl (SystemExit 0), f) # evs)
                = (Raised (SystemExit 0) st, [])"
    by (simp add: iteration_def on_exception_def)
  from h once ex show ?thesis by blast
qed

theorem handler_fan_out_witness:
  "handler os_ok sup2 SIGHUP =
     (Inr (), sup2, [Signalled 101 SIGHUP, Signalled 102 SIGHUP, ReloadLogger])
   \<and> handler os_ok sup2 SIGQUIT =
     (Inl (SystemExit 0), sup2, [Signalled 101 SIGQUIT, Signalled 102 SIGQUIT])"
  using handler_fan_out [of SIGHUP sup2 os_ok PyClass forever "Inr 0" "[]"]
    handler_fan_out [of SIGQUIT sup2 os_ok PyClass forever "Inr 0" "[]"]
  by (simp add: sup2_def os_ok_def keys_def)

text \<open>
  C5, as amended. The shutdown flag is false at construction and nothing in the supervisor
  assigns it afterwards: the handler, \<^verbatim>\<open>stop\<close> and every state that \<^verbatim>\<open>run\<close> reaches
  have the flag they started with. The wait loop reads it at the top of each round: with
  the flag set it ends at once, and with the flag clear it never ends normally (it is left
  only by an exception, such as the \<^verbatim>\<open>SystemExit\<close> of the handler).
\<close>

theorem shutdown_flag_only_read:
  "shutdown (init ncpu w) = False
   \<and> shutdown (fst (snd (handler os st signum))) = shutdown st
   \<and> shutdown (fst (snd (stop os sig st))) = shutdown st
   \<and> (\<forall>st'. state_of (fst (run imp unit_run divide_jobs cwd fork os st evs)) = Some st'
          \<longrightarrow> shutdown st' = shutdown st)
   \<and> (shutdown st \<longrightarrow> wait_loop imp unit_run st evs = (Done st, []))
   \<and> (\<not> shutdown st \<longrightarrow> (\<forall>st'. fst (wait_loop imp unit_run st evs) \<noteq> Done st'))"
proof -
  have a: "shutdown (init ncpu w) = False"
    by (simp add: init_def Let_def split: prod.splits)
  show ?thesis
    using a run_shutdown [of imp unit_run divide_jobs cwd fork os st evs]
      wait_loop_flag_set [of st imp unit_run evs] wait_loop_not_done [of st imp unit_run evs]
    by (simp add: handler_state stop_shutdown)
qed

theorem shutdown_flag_only_read_witness:
  "shutdown (init 8 w1) = False
   \<and> wait_loop PyClass forever (sup2\<lparr>shutdown := True\<rparr>) [(Inr (101, 256), Inr 103)]
       = (Done (sup2\<lparr>shutdown := True\<rparr>), [])
   \<and> fst (wait_loop PyClass forever sup2 []) = Blocked sup2"
  using shutdown_flag_only_read [of 8 w1 os_ok sup2 SIGTERM SIGKILL PyClass
      forever no_jobs "''/srv''"
      fork_ok "[]"]
    shutdown_flag_only_read [of 8 w1 os_ok "sup2\<lparr>shutdown := True\<rparr>" SIGTERM SIGKILL PyClass
      forever no_jobs "''/srv''" fork_ok "[(Inr (101, 256), Inr 103)]"]
  by (simp add: sup2_def)

text \<open>
  The claim as the specification states it fails: the terminate signal is delivered to a
  supervisor whose flag is false, the handler raises \<^verbatim>\<open>SystemExit\<close>, and the flag is
  still false.
\<close>

theorem shutdown_flag_counterexample:
  "shutdown sup2 = False
   \<and> fst (handler os_ok sup2 SIGTERM) = Inl (SystemExit 0)
   \<and> shutdown (fst (snd (handler os_ok sup2 SIGTERM))) = False"
  by (simp add: handler_def sup2_def os_ok_def keys_def)

text \<open>
  C6. While the shutdown flag is false, an \<^verbatim>\<open>os.wait()\<close> that fails with \<^verbatim>\<open>EINTR\<close> changes
  nothing and logs nothing, and the loop waits again; a failure with any other error code
  ends the loop with that \<^verbatim>\<open>OSError\<close>, and after the \<^verbatim>\<open>finally\<close> clause the supervisor still
  ends with an exception.
\<close>

theorem wait_eintr_retried:
  assumes "\<not> shutdown st"
  shows "iteration imp unit_run st (Inl (OSError EINTR), f) = (Done st, [])
       \<and> wait_loop imp unit_run st ((Inl (OSError EINTR), f) # evs) = wait_loop imp unit_run st evs
       \<and> (e \<noteq> EINTR \<longrightarrow>
            wait_loop imp unit_run st ((Inl (OSError e), f) # evs) = (Raised (OSError e) st, [])
            \<and> (\<exists>e' st' tr. finally_stop os (wait_loop imp unit_run st ((Inl (OSError e), f) # evs))
                               = (Raised e' st', tr)))"
proof -
  have a: "iteration imp unit_run st (Inl (OSError EINTR), f) = (Done st, [])"
    by (simp add: iteration_def on_exception_def)
  have b: "wait_loop imp unit_run st ((Inl (OSError EINTR), f) # evs) = wait_loop imp unit_run st evs"
    using assms a by (simp split: prod.splits)
  have c: "e \<noteq> EINTR \<longrightarrow>
            wait_loop imp unit_run st ((Inl (OSError e), f) # evs) = (Raised (OSError e) st, [])"
    using assms by (simp add: iteration_def on_exception_def)
  have d: "\<exists>e' st' tr. finally_stop os (Raised (OSError e) st, []) = (Raised e' st', tr)"
    by (cases "stop os SIGKILL st") (auto simp: finally_stop_def split: sum.splits)
  from a b c d show ?thesis by simp
qed

theorem wait_eintr_retried_witness:
  "wait_loop PyClass forever sup2 [(Inl (OSError EINTR), Inr 0), (Inl (OSError EINTR), Inr 0)]
     = (Blocked sup2, [])
   \<and> wait_loop PyClass forever sup2 [(Inl (OSError EINTR), Inr 0), (Inl (OSError ECHILD), Inr 0)]
     = (Raised (OSError ECHILD) sup2, [])"
proof -
  have n: "\<not> shutdown sup2" by (simp add: sup2_def)
  show ?thesis
    using wait_eintr_retried [OF n, of PyClass forever "Inr 0" "[(Inl (OSError EINTR), Inr 0)]" ECHILD os_ok]
      wait_eintr_retried [OF n, of PyClass forever "Inr 0" "[]" ECHILD os_ok]
      wait_eintr_retried [OF n, of PyClass forever "Inr 0" "[(Inl (OSError ECHILD), Inr 0)]" ECHILD os_ok]
    by (simp add: n)
qed

text \<open>
  C7. The specification says that a failing wait for a child during \<^verbatim>\<open>stop\<close> is logged and
  never ends \<^verbatim>\<open>stop\<close> with an error, also for the first child. When the first \<^verbatim>\<open>waitpid\<close>
  fails, the error is logged, and then the \<^verbatim>\<open>finally\<close> clause reads the local variable
  \<^verbatim>\<open>pid\<close>, which no \<^verbatim>\<open>waitpid\<close> has assigned yet: \<^verbatim>\<open>stop\<close> ends with \<^verbatim>\<open>UnboundLocalError\<close>,
  and child 102 is never waited for.
\<close>

theorem stop_first_wait_failure_raises:
  "stop os_no_child SIGINT sup2 =
     (Inl (UnboundLocalError ''pid''), sup2,
      [Warn (Stopping 101), Signalled 101 SIGINT, Warn (Stopping 102), Signalled 102 SIGINT,
       Info (WaitingFor 101), Exception (ErrorWaitingFor 101)])"
  by (simp add: sup2_def os_no_child_def stop_def keys_def reap_one_def Let_def)



text \<open>
  C9. The sandbox of slot \<open>i\<close> is the working directory, a separator unless the
  directory ends with one, \<^verbatim>\<open>qless-py-workers/sandbox-\<close> and the index in decimal digits
  (reading the digits gives the index back), so it depends on the working directory and
  the index only, and two slots never have the same path. When the \<open>N\<close> forks at startup
  return distinct pids in the parent, the record maps the child of each slot to the path
  of its slot. Across respawns each slot keeps its own path: whenever the wait loop has
  run with the record as long at the end as at the start, every path is recorded exactly
  as often as before; and whatever else happens, every path in the record of a run for
  \<open>n\<close> workers is the path of one of the slots below \<open>n\<close>.
\<close>

theorem sandbox_path_stable:
  "sandbox_path cwd i =
       (if cwd = [] \<or> last cwd = CHR ''/'' then cwd else cwd @ ''/'')
         @ ''qless-py-workers/sandbox-'' @ str_nat i
   \<and> decimal_value (str_nat i) = i \<and> set (str_nat i) \<subseteq> set ''0123456789''
   \<and> (sandbox_path cwd i = sandbox_path cwd j \<longrightarrow> i = j)
   \<and> ((\<forall>j<N. fork j = Inr (cpid j) \<and> cpid j \<noteq> 0) \<and> inj_on cpid {..<N} \<and> sandboxes st = []
        \<longrightarrow> fst (launch imp unit_run cwd res fork [0..<N] st) =
              Done (st\<lparr>sandboxes := map (\<lambda>j. (cpid j, sandbox_path cwd j)) [0..<N]\<rparr>))
   \<and> (\<forall>st'. distinct (keys (sandboxes st))
           \<and> state_of (fst (wait_loop imp unit_run st evs)) = Some st'
           \<and> length (sandboxes st') = length (sandboxes st)
        \<longrightarrow> distinct (keys (sandboxes st'))
            \<and> (\<forall>p. count_list (map snd (sandboxes st')) p
                    = count_list (map snd (sandboxes st)) p))
   \<and> (\<forall>st'. count st = PyInt n \<and> sandboxes st = []
           \<and> state_of (fst (run imp unit_run divide_jobs cwd fork os st evs)) = Some st'
        \<longrightarrow> snd ` set (sandboxes st') \<subseteq> sandbox_path cwd ` {0..<nat n})"
proof -
  have c: "(\<forall>j<N. fork j = Inr (cpid j) \<and> cpid j \<noteq> 0) \<and> inj_on cpid {..<N} \<and> sandboxes st = []
        \<longrightarrow> fst (launch imp unit_run cwd res fork [0..<N] st) =
              Done (st\<lparr>sandboxes := map (\<lambda>j. (cpid j, sandbox_path cwd j)) [0..<N]\<rparr>)"
    using launch_record [of N fork cpid st imp unit_run cwd res] by blast
  have d: "\<forall>st'. distinct (keys (sandboxes st))
           \<and> state_of (fst (wait_loop imp unit_run st evs)) = Some st'
           \<and> length (sandboxes st') = length (sandboxes st)
        \<longrightarrow> distinct (keys (sandboxes st'))
            \<and> (\<forall>p. count_list (map snd (sandboxes st')) p
                    = count_list (map snd (sandboxes st)) p)"
    using wait_loop_same_size [of imp unit_run st evs] by blast
  have e: "\<forall>st'. count st = PyInt n \<and> sandboxes st = []
           \<and> state_of (fst (run imp unit_run divide_jobs cwd fork os st evs)) = Some st'
        \<longrightarrow> snd ` set (sandboxes st') \<subseteq> sandbox_path cwd ` {0..<nat n}"
    using run_paths [of imp unit_run divide_jobs cwd fork os st evs _ n] by blast
  have f: "sandbox_path cwd i = sandbox_path cwd j \<longrightarrow> i = j"
    using sandbox_path_inj [of cwd i j] by blast
  from sandbox_path_explicit [of cwd i] decimal_value_str_nat [of i] str_nat_digits [of i] f c d e
  show ?thesis by blast
qed

theorem sandbox_path_stable_witness:
  "sandbox_path ''/srv'' 12 = ''/srv/qless-py-workers/sandbox-12''
   \<and> decimal_value ''12'' = 12
   \<and> fst (launch PyClass forever ''/srv'' [[], [], []] fork_ok [0..<3] sup0) =
       Done (sup0\<lparr>sandboxes := [(101, ''/srv/qless-py-workers/sandbox-0''),
                                  (102, ''/srv/qless-py-workers/sandbox-1''),
                                  (103, ''/srv/qless-py-workers/sandbox-2'')]\<rparr>)
   \<and> fst (wait_loop PyClass forever sup2 [(Inr (101, 256), Inr 103), (Inr (102, 9), Inr 101)]) =
       Blocked (sup2\<lparr>sandboxes := [(103, ''/srv/qless-py-workers/sandbox-0''),
                                     (101, ''/srv/qless-py-workers/sandbox-1'')]\<rparr>)
   \<and> state_of (fst (run PyClass forever no_jobs ''/srv'' fork_ok os_ok sup0
                     [(Inr (101, 256), Inr 103)]))
       = Some (sup0\<lparr>sandboxes := [(102, ''/srv/qless-py-workers/sandbox-1''),
                                   (103, ''/srv/qless-py-workers/sandbox-0'')]\<rparr>)"
proof -
  let ?evs = "[(Inr (101, 256), Inr 103), (Inr (102, 9), Inr 101)]"
  let ?st' = "sup2\<lparr>sandboxes := [(103, ''/srv/qless-py-workers/sandbox-0''),
                                  (101, ''/srv/qless-py-workers/sandbox-1'')]\<rparr>"
  have s12: "str_nat 12 = ''12''" by (simp add: str_nat.simps digit_def)
  have s2: "str_nat 2 = ''2''" by (simp add: str_nat.simps digit_def)
  have upt3: "[0..<3] = [0, 1, 2]" by (simp add: upt_rec)
  have p12: "sandbox_path ''/srv'' 12 = ''/srv/qless-py-workers/sandbox-12''"
    by (simp add: sandbox_path_explicit s12)
  have h4: "sandbox_path ''/srv'' 12 = sandbox_path ''/srv'' 12" by simp
  have h5: "(\<forall>j<3. fork_ok j = Inr (101 + int j) \<and> 101 + int j \<noteq> 0)
            \<and> inj_on (\<lambda>j. 101 + int j) {..<3} \<and> sandboxes sup0 = []"
    by (simp add: fork_ok_def inj_on_def sup0_def)
  have w: "fst (wait_loop PyClass forever sup2 ?evs) = Blocked ?st'"
    by (simp add: sup2_def iteration_def pop_def Let_def)
  have h6a: "distinct (keys (sandboxes sup2))" by (simp add: sup2_def keys_def)
  have h6b: "state_of (fst (wait_loop PyClass forever sup2 ?evs)) = Some ?st'"
    by (simp only: w state_of.simps)
  have h6c: "length (sandboxes ?st') = length (sandboxes sup2)" by (simp add: sup2_def)
  have h6: "distinct (keys (sandboxes sup2))
            \<and> state_of (fst (wait_loop PyClass forever sup2 ?evs)) = Some ?st'
            \<and> length (sandboxes ?st') = length (sandboxes sup2)"
    using h6a h6b h6c by (intro conjI)
  have r: "fst (run PyClass forever no_jobs ''/srv'' fork_ok os_ok sup0 [(Inr (101, 256), Inr 103)])
       = Blocked (sup0\<lparr>sandboxes := [(102, ''/srv/qless-py-workers/sandbox-1''),
                                      (103, ''/srv/qless-py-workers/sandbox-0'')]\<rparr>)"
    by (simp add: run_def sup0_def no_jobs_def fork_ok_def upt2 sandbox_path_explicit
          str_nat_0 str_nat_1 iteration_def pop_def finally_stop_def Let_def)
  have h7: "count sup0 = PyInt 2 \<and> sandboxes sup0 = []
            \<and> state_of (fst (run PyClass forever no_jobs ''/srv'' fork_ok os_ok sup0
                               [(Inr (101, 256), Inr 103)]))
              = Some (sup0\<lparr>sandboxes := [(102, ''/srv/qless-py-workers/sandbox-1''),
                                          (103, ''/srv/qless-py-workers/sandbox-0'')]\<rparr>)"
    using r by (intro conjI) (simp_all only: state_of.simps, simp_all add: sup0_def)
  note at_launch = sandbox_path_stable
    [where cwd = "''/srv''" and i = 12 and j = 12 and N = 3 and fork = fork_ok
       and cpid = "\<lambda>j. 101 + int j" and st = sup0 and imp = PyClass and unit_run = forever
       and res = "[[], [], []]" and evs = "[(Inr (101, 256), Inr 103)]" and n = 2
       and divide_jobs = no_jobs and os = os_ok]
  note in_loop = sandbox_path_stable
    [where cwd = "''/srv''" and i = 12 and j = 12 and N = 3 and fork = fork_ok
       and cpid = "\<lambda>j. 101 + int j" and st = sup2 and imp = PyClass and unit_run = forever
       and res = "[[], [], []]" and evs = ?evs and n = 2
       and divide_jobs = no_jobs and os = os_ok]
  note f1 = at_launch [THEN conjunct1]
  note f2 = at_launch [THEN conjunct2, THEN conjunct1]
  note f4 = at_launch [THEN conjunct2, THEN conjunct2, THEN conjunct2, THEN conjunct1,
                       THEN mp, OF h4]
  note f5 = at_launch [THEN conjunct2, THEN conjunct2, THEN conjunct2, THEN conjunct2,
                       THEN conjunct1, THEN mp, OF h5]
  note f6 = in_loop [THEN conjunct2, THEN conjunct2, THEN conjunct2, THEN conjunct2,
                     THEN conjunct2, THEN conjunct1, THEN spec, THEN mp, OF h6]
  note f7 = at_launch [THEN conjunct2, THEN conjunct2, THEN conjunct2, THEN conjunct2,
                       THEN conjunct2, THEN conjunct2, THEN spec, THEN mp, OF h7]
  have d12: "decimal_value ''12'' = 12" using f2 by (simp only: s12)
  have l3: "fst (launch PyClass forever ''/srv'' [[], [], []] fork_ok [0..<3] sup0) =
       Done (sup0\<lparr>sandboxes := [(101, ''/srv/qless-py-workers/sandbox-0''),
                                  (102, ''/srv/qless-py-workers/sandbox-1''),
                                  (103, ''/srv/qless-py-workers/sandbox-2'')]\<rparr>)"
    using f5 by (simp add: upt3 sandbox_path_explicit str_nat_0 str_nat_1 s2)
  from f1 f4 f6 f7 p12 d12 l3 w h7 show ?thesis by blast
qed

text \<open>
  C10. The \<^verbatim>\<open>workers\<close> option is an integer count. If it is absent or 0 the worker count is
  the number of CPUs, and if it is another integer the worker count is that integer. In
  both cases the stored keyword options no longer have the keys \<^verbatim>\<open>workers\<close> and \<^verbatim>\<open>klass\<close>,
  and neither do the options that \<^verbatim>\<open>spawn\<close> passes to a worker unit, unless its caller
  names them.
\<close>

theorem init_count_and_options:
  "(map_of (kwargs w) ''workers'' = None \<or> map_of (kwargs w) ''workers'' = Some (PyInt 0)
      \<longrightarrow> count (init ncpu w) = PyInt ncpu)
   \<and> (\<forall>n. n \<noteq> 0 \<and> map_of (kwargs w) ''workers'' = Some (PyInt n)
          \<longrightarrow> count (init ncpu w) = PyInt n)
   \<and> ''workers'' \<notin> set (keys (kwargs (init ncpu w)))
   \<and> ''klass'' \<notin> set (keys (kwargs (init ncpu w)))
   \<and> (\<forall>kw. ''workers'' \<notin> set (keys kw) \<and> ''klass'' \<notin> set (keys kw) \<longrightarrow>
         ''workers'' \<notin> set (keys (ctor_kwargs (fst (spawn imp (init ncpu w) kw))))
       \<and> ''klass'' \<notin> set (keys (ctor_kwargs (fst (spawn imp (init ncpu w) kw)))))"
proof -
  have kw: "kwargs (init ncpu w) = AList.delete ''workers'' (AList.delete ''klass'' (kwargs w))"
    by (simp add: init_def pop_default_def Let_def)
  have cnt: "count (init ncpu w) =
     py_or (case map_of (kwargs w) ''workers'' of None \<Rightarrow> PyInt 0 | Some v \<Rightarrow> v) (PyInt ncpu)"
    by (simp add: init_def pop_default_def Let_def AList.delete_conv')
  have a: "''workers'' \<notin> set (keys (kwargs (init ncpu w)))"
    by (simp add: kw keys_def AList.delete_keys)
  have b: "''klass'' \<notin> set (keys (kwargs (init ncpu w)))"
    by (simp add: kw keys_def AList.delete_keys)
  have c: "\<And>kw k. k \<notin> set (keys kw) \<Longrightarrow> k \<notin> set (keys (kwargs (init ncpu w)))
       \<Longrightarrow> k \<notin> set (keys (ctor_kwargs (fst (spawn imp (init ncpu w) kw))))"
    using AList.dom_merge [of "kwargs (init ncpu w)"]
    by (simp add: ctor_kwargs_spawn keys_def)
  show ?thesis
    using a b c by (auto simp: cnt py_or_def)
qed

theorem init_count_and_options_witness:
  "count (init 8 w0) = PyInt 3 \<and> count (init 8 w1) = PyInt 8
   \<and> keys (ctor_kwargs (fst (spawn PyClass (init 8 w0) [(''sandbox'', PyStr ''/srv/sandbox-0'')])))
       = [''interval'', ''sandbox'']"
  using init_count_and_options [of w0 8 PyClass] init_count_and_options [of w1 8 PyClass]
  by (simp add: w0_def w1_def init_def pop_default_def spawn_def keys_def Let_def py_or_def)

end
